theory Spec2Isabelle
  imports Main "HOL-Library.Word"
begin

section \<open>JavaScript values and strings\<close>

text \<open>
  A JavaScript string is a sequence of UTF-16 code units; \<open>length\<close>, \<open>trim\<close>,
  \<open>substring\<close> and the regular expressions of the utilities all work on code units.
\<close>

type_synonym jschar = "16 word"
type_synonym jsstring = "jschar list"

text \<open>A literal of the source, written with the characters of Basic Latin.\<close>

definition utf16 :: "string \<Rightarrow> jsstring" where
  "utf16 s = map of_char s"

text \<open>
  The values a caller can pass where the utilities test \<open>typeof name !== 'string'\<close>.
  \<open>JObject\<close> stands for every object, array and function.
\<close>

datatype jsvalue =
    JUndefined
  | JNull
  | JBoolean bool
  | JNumber int
  | JString jsstring
  | JObject

text \<open>\<open>!v\<close> is true exactly for the falsy values.\<close>

fun falsy :: "jsvalue \<Rightarrow> bool" where
  "falsy JUndefined = True"
| "falsy JNull = True"
| "falsy (JBoolean b) = (\<not> b)"
| "falsy (JNumber n) = (n = 0)"
| "falsy (JString s) = (s = [])"
| "falsy JObject = False"

text \<open>
  The class \<open>\s\<close> of a regular expression and the characters removed by
  \<open>String.prototype.trim\<close> are the same set: WhiteSpace and LineTerminator of
  ECMAScript (TAB, LF, VT, FF, CR, SP, NBSP, the space separators of Unicode, LS, PS
  and the byte order mark).
\<close>

definition isWhiteSpace :: "jschar \<Rightarrow> bool" where
  "isWhiteSpace c \<longleftrightarrow>
     (0x09 \<le> c \<and> c \<le> 0x0D) \<or> c = 0x20 \<or> c = 0xA0 \<or> c = 0x1680 \<or>
     (0x2000 \<le> c \<and> c \<le> 0x200A) \<or> c = 0x2028 \<or> c = 0x2029 \<or> c = 0x202F \<or>
     c = 0x205F \<or> c = 0x3000 \<or> c = 0xFEFF"

text \<open>
  \<open>s.trim()\<close> removes the white space at both ends, as \<open>s.trimStart().trimEnd()\<close>
  does.
\<close>

definition trimStart :: "jsstring \<Rightarrow> jsstring" where
  "trimStart s = dropWhile isWhiteSpace s"

definition trimEnd :: "jsstring \<Rightarrow> jsstring" where
  "trimEnd s = rev (dropWhile isWhiteSpace (rev s))"

definition trim :: "jsstring \<Rightarrow> jsstring" where
  "trim s = trimEnd (trimStart s)"

text \<open>The character class \<open>[<>\"'&]\<close> of \<open>isValidName\<close> and \<open>sanitizeName\<close>.\<close>

definition dangerousChar :: "jschar \<Rightarrow> bool" where
  "dangerousChar c \<longleftrightarrow> c = 0x3C \<or> c = 0x3E \<or> c = 0x22 \<or> c = 0x27 \<or> c = 0x26"

text \<open>
  \<open>s.replace(/\s+/g, ' ')\<close>: the scan goes from left to right; where it meets a white
  space character the greedy \<open>\s+\<close> takes the whole run, one space is written for it
  and the scan goes on behind the run.
\<close>

function replaceSpaces :: "jsstring \<Rightarrow> jsstring" where
  "replaceSpaces [] = []"
| "replaceSpaces (c # cs) =
     (if isWhiteSpace c then 0x20 # replaceSpaces (dropWhile isWhiteSpace cs)
      else c # replaceSpaces cs)"
  by pat_completeness auto
termination
  by (relation "measure length") (auto simp: length_dropWhile_le less_Suc_eq_le)

text \<open>\<open>s.replace(/[<>\"'&]/g, '')\<close>: every match is one character and is dropped.\<close>

fun removeDangerous :: "jsstring \<Rightarrow> jsstring" where
  "removeDangerous [] = []"
| "removeDangerous (c # cs) =
     (if dangerousChar c then removeDangerous cs else c # removeDangerous cs)"

text \<open>\<open>s.substring(0, n)\<close>\<close>

definition substring0 :: "nat \<Rightarrow> jsstring \<Rightarrow> jsstring" where
  "substring0 n s = take n s"

text \<open>\<open>typeof v === 'string'\<close>, and the string that such a value is.\<close>

fun typeofString :: "jsvalue \<Rightarrow> bool" where
  "typeofString (JString s) = True"
| "typeofString v = False"

fun stringOf :: "jsvalue \<Rightarrow> jsstring" where
  "stringOf (JString s) = s"
| "stringOf v = []"

subsection \<open>sanitizeName\<close>

definition sanitizeName :: "jsvalue \<Rightarrow> jsstring" where
  "sanitizeName v =
     (if falsy v \<or> \<not> typeofString v then []
      else substring0 50 (removeDangerous (replaceSpaces (trim (stringOf v)))))"

subsection \<open>isValidName and isValidStudentId\<close>

text \<open>\<open>/[<>\"'&]/.test(s)\<close>\<close>

definition dangerousChars_test :: "jsstring \<Rightarrow> bool" where
  "dangerousChars_test s = list_ex dangerousChar s"

definition isValidName :: "jsvalue \<Rightarrow> bool" where
  "isValidName v =
     (if falsy v \<or> \<not> typeofString v then False
      else let trimmedName = trim (stringOf v) in
        if length trimmedName < 2 \<or> length trimmedName > 50 then False
        else if length trimmedName = 0 then False
        else if dangerousChars_test trimmedName then False
        else True)"

definition isValidStudentId :: "jsvalue \<Rightarrow> bool" where
  "isValidStudentId v \<longleftrightarrow> \<not> falsy v \<and> typeofString v \<and> length (stringOf v) > 0"

section \<open>Dates\<close>

text \<open>
  A valid \<open>Date\<close> holds a time value, the milliseconds since 1970-01-01T00:00:00Z; an
  invalid one holds NaN, which is \<open>None\<close> here. The day and year arithmetic is that of
  ECMAScript (Day, TimeWithinDay, DayFromYear, InLeapYear, YearFromTime, MonthFromTime,
  DateFromTime, MakeDay, MakeDate).
\<close>

definition msPerDay :: int where
  "msPerDay = 86400000"

definition Day :: "int \<Rightarrow> int" where
  "Day t = t div msPerDay"

definition TimeWithinDay :: "int \<Rightarrow> int" where
  "TimeWithinDay t = t mod msPerDay"

definition DayFromYear :: "int \<Rightarrow> int" where
  "DayFromYear y =
     365 * (y - 1970) + (y - 1969) div 4 - (y - 1901) div 100 + (y - 1601) div 400"

definition InLeapYear :: "int \<Rightarrow> bool" where
  "InLeapYear y \<longleftrightarrow> y mod 4 = 0 \<and> (y mod 100 \<noteq> 0 \<or> y mod 400 = 0)"

text \<open>
  The year of a day number, that is the \<open>y\<close> with
  \<open>DayFromYear y \<le> d < DayFromYear (y + 1)\<close>, found from the mean length of a year
  and one step of adjustment.
\<close>

definition YearFromDay :: "int \<Rightarrow> int" where
  "YearFromDay d =
     (let y = 1970 + (d * 400) div 146097 in
      if d < DayFromYear y then y - 1
      else if DayFromYear (y + 1) \<le> d then y + 1
      else y)"

definition YearFromTime :: "int \<Rightarrow> int" where
  "YearFromTime t = YearFromDay (Day t)"

text \<open>The day number within its year on which month \<open>m\<close> (0 to 11) begins.\<close>

definition monthStart :: "bool \<Rightarrow> int \<Rightarrow> int" where
  "monthStart leap m =
     (let l = (if leap then 1 else 0) in
      if m = 0 then 0 else if m = 1 then 31 else if m = 2 then 59 + l
      else if m = 3 then 90 + l else if m = 4 then 120 + l else if m = 5 then 151 + l
      else if m = 6 then 181 + l else if m = 7 then 212 + l else if m = 8 then 243 + l
      else if m = 9 then 273 + l else if m = 10 then 304 + l else 334 + l)"

definition DayWithinYear :: "int \<Rightarrow> int" where
  "DayWithinYear t = Day t - DayFromYear (YearFromTime t)"

definition MonthFromTime :: "int \<Rightarrow> int" where
  "MonthFromTime t =
     (let d = DayWithinYear t; leap = InLeapYear (YearFromTime t) in
      if d < monthStart leap 1 then 0 else if d < monthStart leap 2 then 1
      else if d < monthStart leap 3 then 2 else if d < monthStart leap 4 then 3
      else if d < monthStart leap 5 then 4 else if d < monthStart leap 6 then 5
      else if d < monthStart leap 7 then 6 else if d < monthStart leap 8 then 7
      else if d < monthStart leap 9 then 8 else if d < monthStart leap 10 then 9
      else if d < monthStart leap 11 then 10 else 11)"

definition DateFromTime :: "int \<Rightarrow> int" where
  "DateFromTime t =
     DayWithinYear t - monthStart (InLeapYear (YearFromTime t)) (MonthFromTime t) + 1"

text \<open>
  \<open>MakeDay year month date\<close> with a month counted from 0: months beyond the year and
  days beyond the month are carried over.
\<close>

definition MakeDay :: "int \<Rightarrow> int \<Rightarrow> int \<Rightarrow> int" where
  "MakeDay year month date =
     (let ym = year + month div 12; mn = month mod 12 in
      DayFromYear ym + monthStart (InLeapYear ym) mn + date - 1)"

definition MakeDate :: "int \<Rightarrow> int \<Rightarrow> int" where
  "MakeDate day time = day * msPerDay + time"

subsection \<open>The host\<close>

text \<open>
  What the utilities take from the JavaScript engine and the process and what this
  development does not fix:
  \<^item> \<open>toLowerCase\<close>, the lower-casing of Unicode (\<open>String.prototype.toLowerCase\<close>);
  \<^item> \<open>dateParseOther\<close>, the result of \<open>new Date(s)\<close> for a string \<open>s\<close> that does not
    match \<open>/^\d{4}-\d{2}-\d{2}$/\<close> (other ISO forms and the engine's own formats);
  \<^item> \<open>localTZA\<close>, the offset of local time from UTC in milliseconds. It is one number:
    the zone of the process has no daylight saving changes in the model.
\<close>

record host =
  toLowerCase :: "jsstring \<Rightarrow> jsstring"
  dateParseOther :: "jsstring \<Rightarrow> int option"
  localTZA :: int

text \<open>
  What one call reads from the clock and the entropy source: the two \<open>new Date()\<close> of
  \<open>isValidBirthDate\<close> (bound to \<open>today\<close> and to \<open>minDate\<close>), the result of
  \<open>generateStudentId()\<close>, which is
  \<open>Date.now().toString(36) + Math.random().toString(36).substr(2)\<close>, and the result of
  \<open>getCurrentISODate()\<close>.
\<close>

record reading =
  today :: int
  minDateNow :: int
  generatedId :: jsstring
  currentISODate :: jsstring

subsection \<open>Local time\<close>

definition LocalTime :: "host \<Rightarrow> int \<Rightarrow> int" where
  "LocalTime h t = t + localTZA h"

definition UTC :: "host \<Rightarrow> int \<Rightarrow> int" where
  "UTC h t = t - localTZA h"

definition getFullYear :: "host \<Rightarrow> int \<Rightarrow> int" where
  "getFullYear h t = YearFromTime (LocalTime h t)"

definition getMonth :: "host \<Rightarrow> int \<Rightarrow> int" where
  "getMonth h t = MonthFromTime (LocalTime h t)"

definition getDate :: "host \<Rightarrow> int \<Rightarrow> int" where
  "getDate h t = DateFromTime (LocalTime h t)"

text \<open>\<open>d.setFullYear(y)\<close> on a valid date: the new time value.\<close>

definition setFullYear :: "host \<Rightarrow> int \<Rightarrow> int \<Rightarrow> int" where
  "setFullYear h t y =
     (let lt = LocalTime h t in
      UTC h (MakeDate (MakeDay y (MonthFromTime lt) (DateFromTime lt)) (TimeWithinDay lt)))"

subsection \<open>Parsing\<close>

definition isDigit :: "jschar \<Rightarrow> bool" where
  "isDigit c \<longleftrightarrow> 0x30 \<le> c \<and> c \<le> 0x39"

text \<open>\<open>/^\d{4}-\d{2}-\d{2}$/.test(s)\<close>\<close>

definition dateRegex_test :: "jsstring \<Rightarrow> bool" where
  "dateRegex_test s \<longleftrightarrow>
     length s = 10 \<and> list_all isDigit (take 4 s) \<and> s ! 4 = 0x2D \<and>
     list_all isDigit (take 2 (drop 5 s)) \<and> s ! 7 = 0x2D \<and>
     list_all isDigit (take 2 (drop 8 s))"

definition digitsValue :: "jsstring \<Rightarrow> int" where
  "digitsValue s = foldl (\<lambda>a c. 10 * a + (uint c - 48)) 0 s"

text \<open>
  \<open>new Date(s)\<close> for a string that matches the regular expression, as V8 (the engine
  of Node.js, on which \<open>server.js\<close> runs) reads it. Its parser of ISO dates comes
  first: it takes the four digits as the year, wants a month from 01 to 12 and a day
  from 01 to 31, whatever the month, and gives midnight UTC; a day beyond the end of
  the month is carried into the next month by \<open>MakeDay\<close>.
\<close>

definition parseISODate :: "jsstring \<Rightarrow> int option" where
  "parseISODate s =
     (let year = digitsValue (take 4 s);
          month = digitsValue (take 2 (drop 5 s));
          day = digitsValue (take 2 (drop 8 s)) in
      if 1 \<le> month \<and> month \<le> 12 \<and> 1 \<le> day \<and> day \<le> 31
      then Some (MakeDate (MakeDay year (month - 1) day) 0)
      else None)"

text \<open>
  Where the ISO parser stops at a month or a day out of range, V8's legacy parser goes
  on with the three numbers read. When the first is a day of a month (1 to 31) it reads
  them as month, day and year, and a year of two digits is of the century 2000 from 00
  to 49 and of 1900 from 50 to 99; the date is valid when the month is 1 to 12 and the
  day 1 to 31, and it is midnight in local time. Otherwise it reads them as year, month
  and day, of which the month or the day is out of range, and the date is invalid.
\<close>

definition parseLegacyDate :: "host \<Rightarrow> jsstring \<Rightarrow> int option" where
  "parseLegacyDate h s =
     (let first = digitsValue (take 4 s);
          second = digitsValue (take 2 (drop 5 s));
          third = digitsValue (take 2 (drop 8 s)) in
      if 1 \<le> first \<and> first \<le> 31
      then
        (let month = first; day = second;
             year = (if third \<le> 49 then 2000 + third else 1900 + third) in
         if 1 \<le> month \<and> month \<le> 12 \<and> 1 \<le> day \<and> day \<le> 31
         then Some (UTC h (MakeDate (MakeDay year (month - 1) day) 0))
         else None)
      else None)"

definition newDate :: "host \<Rightarrow> jsstring \<Rightarrow> int option" where
  "newDate h s =
     (if dateRegex_test s
      then (case parseISODate s of
              Some t \<Rightarrow> Some t
            | None \<Rightarrow> parseLegacyDate h s)
      else dateParseOther h s)"

subsection \<open>Numbers as strings\<close>

fun decimal :: "nat \<Rightarrow> jsstring" where
  "decimal n = (if n < 10 then [0x30 + of_nat n] else decimal (n div 10) @ [0x30 + of_nat (n mod 10)])"

declare decimal.simps [simp del]

text \<open>\<open>n.toString()\<close> and \<open>`${n}`\<close> for an integer \<open>n\<close>\<close>

definition numberToString :: "int \<Rightarrow> jsstring" where
  "numberToString n = (if n < 0 then 0x2D # decimal (nat (- n)) else decimal (nat n))"

text \<open>\<open>s.padStart(n, '0')\<close>\<close>

definition padStart0 :: "nat \<Rightarrow> jsstring \<Rightarrow> jsstring" where
  "padStart0 n s = replicate (n - length s) 0x30 @ s"

subsection \<open>formatDateToFrench and isValidBirthDate\<close>

definition formatDateToFrench :: "host \<Rightarrow> jsstring \<Rightarrow> jsstring" where
  "formatDateToFrench h dateString =
     (if dateString = [] then []
      else case newDate h dateString of
        None \<Rightarrow> []
      | Some date \<Rightarrow>
          (let day = padStart0 2 (numberToString (getDate h date));
               month = padStart0 2 (numberToString (getMonth h date + 1));
               year = getFullYear h date in
           day @ [0x2F] @ month @ [0x2F] @ numberToString year))"

definition isValidBirthDate :: "host \<Rightarrow> reading \<Rightarrow> jsstring \<Rightarrow> bool" where
  "isValidBirthDate h r dateString =
     (if dateString = [] then False
      else if \<not> dateRegex_test dateString then False
      else case newDate h dateString of
        None \<Rightarrow> False
      | Some date \<Rightarrow>
          if date > today r then False
          else let minDate = setFullYear h (minDateNow r) (getFullYear h (today r) - 150) in
            if date < minDate then False else True)"


section \<open>The server\<close>

text \<open>
  A record of the array \<open>students\<close>. The seeded records have neither \<open>createdAt\<close> nor
  \<open>updatedAt\<close>; the field \<open>id\<close> of the source is \<open>id'\<close> here.
\<close>

record student =
  id' :: jsstring
  name :: jsstring
  birth :: jsstring
  createdAt :: "jsstring option"
  updatedAt :: "jsstring option"

definition seeded :: "string \<Rightarrow> string \<Rightarrow> string \<Rightarrow> student" where
  "seeded i n b =
     \<lparr>id' = utf16 i, name = utf16 n, birth = utf16 b, createdAt = None, updatedAt = None\<rparr>"

definition students0 :: "student list" where
  "students0 =
     [seeded ''1'' ''Sonia'' ''2019-05-14'',
      seeded ''2'' ''Antoine'' ''2000-12-05'',
      seeded ''3'' ''Alice'' ''1990-09-14'',
      seeded ''4'' ''Sophie'' ''2001-10-02'',
      seeded ''5'' ''Bernard'' ''1980-08-21'']"

text \<open>
  The answers of the handlers. The texts of the source are French sentences; each is a
  constructor here:
  \<^item> \<open>NameRequired\<close>: Le nom est requis
  \<^item> \<open>NameLength\<close>: Le nom doit contenir entre 2 et 50 caracteres
  \<^item> \<open>BirthRequired\<close>: La date de naissance est requise
  \<^item> \<open>BirthInvalid\<close>: Veuillez entrer une date de naissance valide
  \<^item> \<open>StudentExists\<close>: Un etudiant avec ce nom existe deja.
  \<^item> \<open>OtherStudentExists\<close>: Un autre etudiant avec ce nom existe deja.
  \<^item> \<open>InvalidId\<close>: ID d'etudiant invalide.
  \<^item> \<open>NotFound\<close>: Etudiant non trouve.
  \<^item> \<open>Added n\<close>, \<open>Modified n\<close>, \<open>Deleted n\<close>: L'etudiant n a ete ajoute (modifie,
    supprime) avec succes !
\<close>

datatype validationError = NameRequired | NameLength | BirthRequired | BirthInvalid

datatype message =
    StudentExists
  | OtherStudentExists
  | InvalidId
  | NotFound
  | Added jsstring
  | Modified jsstring
  | Deleted jsstring

datatype messageType = Success | Error

text \<open>
  \<open>Redirect url m t\<close> is \<open>res.redirect\<close> to \<open>url\<close> with the message and its type in
  the query; \<open>BadRequest errors\<close> is
  \<open>res.status(400).json({success: false, errors: errors})\<close>; \<open>ServerError\<close> is the
  answer 500 of the error handler, to which \<open>asyncHandler\<close> passes what a handler throws.
\<close>

datatype response =
    Redirect jsstring message messageType
  | BadRequest "validationError list"
  | ServerError

text \<open>
  \<open>encodeURIComponent\<close> throws a URIError on a string with a lone surrogate, that is a
  code unit from DC00 to DFFF that follows no code unit from D800 to DBFF, or one from
  D800 to DBFF that no code unit from DC00 to DFFF follows. A string of a JSON body can
  hold one.
\<close>

definition isHighSurrogate :: "jschar \<Rightarrow> bool" where
  "isHighSurrogate c \<longleftrightarrow> 0xD800 \<le> c \<and> c \<le> 0xDBFF"

definition isLowSurrogate :: "jschar \<Rightarrow> bool" where
  "isLowSurrogate c \<longleftrightarrow> 0xDC00 \<le> c \<and> c \<le> 0xDFFF"

fun wellFormed :: "jsstring \<Rightarrow> bool" where
  "wellFormed [] = True"
| "wellFormed [c] = (\<not> isHighSurrogate c \<and> \<not> isLowSurrogate c)"
| "wellFormed (c # d # cs) =
     (if isLowSurrogate c then False
      else if isHighSurrogate c then isLowSurrogate d \<and> wellFormed cs
      else wellFormed (d # cs))"

text \<open>
  The name that the text of a message holds. The words around it have no surrogate and
  a space stands on each side of the name, so the text has a lone surrogate exactly
  when the name has one.
\<close>

fun nameOf :: "message \<Rightarrow> jsstring" where
  "nameOf (Added n) = n"
| "nameOf (Modified n) = n"
| "nameOf (Deleted n) = n"
| "nameOf m = []"

text \<open>
  \<open>redirectWithMessage(res, url, message, type)\<close>: \<open>encodeURIComponent(message)\<close>, then
  the redirection.
\<close>

definition redirectWithMessage :: "jsstring \<Rightarrow> message \<Rightarrow> messageType \<Rightarrow> response" where
  "redirectWithMessage url m t = (if wellFormed (nameOf m) then Redirect url m t else ServerError)"

text \<open>
  The middleware \<open>validateStudentData\<close> on the two fields of the body, which are
  strings: \<open>Inl\<close> is the answer 400 with its list of errors, \<open>Inr\<close> is \<open>next()\<close> with
  the body as the middleware leaves it, the name sanitized.
\<close>

definition validateStudentData ::
  "host \<Rightarrow> reading \<Rightarrow> jsstring \<Rightarrow> jsstring \<Rightarrow> validationError list + jsstring \<times> jsstring" where
  "validateStudentData h r nm bth =
     (let errors1 =
            (if nm = [] \<or> trim nm = [] then [NameRequired]
             else if \<not> isValidName (JString nm) then [NameLength]
             else []);
          errors2 =
            (if bth = [] then [BirthRequired]
             else if \<not> isValidBirthDate h r bth then [BirthInvalid]
             else []);
          errors = errors1 @ errors2 in
      if length errors > 0 then Inl errors
      else Inr (sanitizeName (JString nm), bth))"

text \<open>\<open>students.findIndex(p)\<close>, with \<open>None\<close> for -1.\<close>

fun findIndex :: "('a \<Rightarrow> bool) \<Rightarrow> 'a list \<Rightarrow> nat option" where
  "findIndex p [] = None"
| "findIndex p (x # xs) =
     (if p x then Some 0 else map_option Suc (findIndex p xs))"

text \<open>\<open>students.splice(i, 1)\<close>\<close>

definition splice1 :: "nat \<Rightarrow> 'a list \<Rightarrow> 'a list" where
  "splice1 i xs = take i xs @ drop (Suc i) xs"

text \<open>
  Each handler takes the array and gives its answer and the array as it leaves it. A
  handler changes the array before it calls \<open>redirectWithMessage\<close>, so the array is
  changed also when that call throws.
\<close>

definition add_student ::
  "host \<Rightarrow> reading \<Rightarrow> student list \<Rightarrow> jsstring \<Rightarrow> jsstring \<Rightarrow> response \<times> student list" where
  "add_student h r students nm bth =
     (case validateStudentData h r nm bth of
        Inl errors \<Rightarrow> (BadRequest errors, students)
      | Inr (name', birth') \<Rightarrow>
          (case find (\<lambda>s. toLowerCase h (name s) = toLowerCase h name') students of
             Some existingStudent \<Rightarrow>
               (redirectWithMessage (utf16 ''/'') StudentExists Error, students)
           | None \<Rightarrow>
               (let newStudent =
                      \<lparr>id' = generatedId r, name = name', birth = birth',
                       createdAt = Some (currentISODate r), updatedAt = None\<rparr> in
                (redirectWithMessage (utf16 ''/users'') (Added name') Success,
                 students @ [newStudent]))))"

definition update_student ::
  "host \<Rightarrow> reading \<Rightarrow> student list \<Rightarrow> jsstring \<Rightarrow> jsstring \<Rightarrow> jsstring \<Rightarrow>
   response \<times> student list" where
  "update_student h r students studentId nm bth =
     (case validateStudentData h r nm bth of
        Inl errors \<Rightarrow> (BadRequest errors, students)
      | Inr (name', birth') \<Rightarrow>
          if \<not> isValidStudentId (JString studentId)
          then (redirectWithMessage (utf16 ''/users'') InvalidId Error, students)
          else
            (case findIndex (\<lambda>s. id' s = studentId) students of
               None \<Rightarrow> (redirectWithMessage (utf16 ''/users'') NotFound Error, students)
             | Some studentIndex \<Rightarrow>
                 (case find (\<lambda>s. toLowerCase h (name s) = toLowerCase h name' \<and>
                                 id' s \<noteq> studentId) students of
                    Some existingStudent \<Rightarrow>
                      (redirectWithMessage (utf16 ''/edit/'' @ studentId) OtherStudentExists Error,
                       students)
                  | None \<Rightarrow>
                      (redirectWithMessage (utf16 ''/users'') (Modified name') Success,
                       students[studentIndex :=
                         (students ! studentIndex)
                           \<lparr>name := name', birth := birth',
                            updatedAt := Some (currentISODate r)\<rparr>]))))"

definition delete_student ::
  "student list \<Rightarrow> jsstring \<Rightarrow> response \<times> student list" where
  "delete_student students studentId =
     (if \<not> isValidStudentId (JString studentId)
      then (redirectWithMessage (utf16 ''/users'') InvalidId Error, students)
      else
        (case findIndex (\<lambda>s. id' s = studentId) students of
           None \<Rightarrow> (redirectWithMessage (utf16 ''/users'') NotFound Error, students)
         | Some studentIndex \<Rightarrow>
             (let studentName = name (students ! studentIndex) in
              (redirectWithMessage (utf16 ''/users'') (Deleted studentName) Success,
               splice1 studentIndex students))))"

subsection \<open>Sequences of requests\<close>

text \<open>
  The three requests that change the array, each with what its handler reads from the
  clock and the entropy source while it runs.
\<close>

datatype request =
    AddStudent reading jsstring jsstring
  | UpdateStudent reading jsstring jsstring jsstring
  | DeleteStudent jsstring

fun handle :: "host \<Rightarrow> request \<Rightarrow> student list \<Rightarrow> response \<times> student list" where
  "handle h (AddStudent r nm bth) students = add_student h r students nm bth"
| "handle h (UpdateStudent r studentId nm bth) students =
     update_student h r students studentId nm bth"
| "handle h (DeleteStudent studentId) students = delete_student students studentId"

text \<open>Node handles one request after the other, each to its end.\<close>

fun serve :: "host \<Rightarrow> request list \<Rightarrow> student list \<Rightarrow> student list" where
  "serve h [] students = students"
| "serve h (q # qs) students = serve h qs (snd (handle h q students))"

section \<open>Notions of the specification\<close>

text \<open>
  No two records have names that are equal without regard to case, which the handlers
  decide by \<open>toLowerCase\<close>.
\<close>

definition uniqueNames :: "host \<Rightarrow> student list \<Rightarrow> bool" where
  "uniqueNames h students = distinct (map (\<lambda>s. toLowerCase h (name s)) students)"

definition uniqueIds :: "student list \<Rightarrow> bool" where
  "uniqueIds students = distinct (map id' students)"

text \<open>
  Every identifier that \<open>generateStudentId\<close> returns during a sequence of requests is
  new: no record of the array has it when the request is handled.
\<close>

fun freshIds :: "host \<Rightarrow> request list \<Rightarrow> student list \<Rightarrow> bool" where
  "freshIds h [] students = True"
| "freshIds h (AddStudent r nm bth # qs) students =
     (generatedId r \<notin> set (map id' students) \<and>
      freshIds h qs (snd (handle h (AddStudent r nm bth) students)))"
| "freshIds h (q # qs) students = freshIds h qs (snd (handle h q students))"

text \<open>The lower-casing of the letters A to Z, which leaves every other code unit.\<close>

definition asciiLower :: "jschar \<Rightarrow> jschar" where
  "asciiLower c = (if 0x41 \<le> c \<and> c \<le> 0x5A then c + 0x20 else c)"

text \<open>
  What is asked of the host's \<open>toLowerCase\<close>: on a string of Basic Latin it is the
  lower-casing of the letters A to Z.
\<close>

definition lowersBasicLatin :: "host \<Rightarrow> bool" where
  "lowersBasicLatin h \<longleftrightarrow>
     (\<forall>s. list_all (\<lambda>c. c < 0x80) s \<longrightarrow> toLowerCase h s = map asciiLower s)"

text \<open>
  The words of a string, that is its longest runs of characters other than white
  space, and the words joined by single spaces: the string trimmed, with each run of
  white space inside it collapsed to one space.
\<close>

function wordsOf :: "jsstring \<Rightarrow> jsstring list" where
  "wordsOf [] = []"
| "wordsOf (c # cs) =
     (if isWhiteSpace c then wordsOf cs
      else (c # takeWhile (\<lambda>x. \<not> isWhiteSpace x) cs) #
           wordsOf (dropWhile (\<lambda>x. \<not> isWhiteSpace x) cs))"
  by pat_completeness auto
termination
  by (relation "measure length") (auto simp: length_dropWhile_le less_Suc_eq_le)

fun joinSpace :: "jsstring list \<Rightarrow> jsstring" where
  "joinSpace [] = []"
| "joinSpace [w] = w"
| "joinSpace (w # v # ws) = w @ 0x20 # joinSpace (v # ws)"

text \<open>The days of month \<open>m\<close> (1 to 12) of year \<open>y\<close> in the Gregorian calendar.\<close>

definition daysInMonth :: "int \<Rightarrow> int \<Rightarrow> int" where
  "daysInMonth y m =
     (if m = 2 then (if InLeapYear y then 29 else 28)
      else if m = 4 \<or> m = 6 \<or> m = 9 \<or> m = 11 then 30
      else 31)"

text \<open>A string \<open>YYYY-MM-DD\<close> that names a day of the calendar.\<close>

definition realCalendarDate :: "jsstring \<Rightarrow> bool" where
  "realCalendarDate s \<longleftrightarrow>
     dateRegex_test s \<and>
     (let year = digitsValue (take 4 s);
          month = digitsValue (take 2 (drop 5 s));
          day = digitsValue (take 2 (drop 8 s)) in
      1 \<le> month \<and> month \<le> 12 \<and> 1 \<le> day \<and> day \<le> daysInMonth year month)"

section \<open>Hosts and readings for running the model\<close>

text \<open>
  A host for running the model: the zone is UTC, \<open>toLowerCase\<close> changes the letters A
  to Z only, and no string but \<open>YYYY-MM-DD\<close> is a date.
\<close>

definition utcHost :: host where
  "utcHost = \<lparr>toLowerCase = map asciiLower, dateParseOther = (\<lambda>s. None), localTZA = 0\<rparr>"

text \<open>The same host five hours west of UTC.\<close>

definition westHost :: host where
  "westHost = utcHost\<lparr>localTZA := - 18000000\<rparr>"

text \<open>A reading of the clock at 2026-11-02T00:00:00Z.\<close>

definition reading0 :: "string \<Rightarrow> reading" where
  "reading0 i =
     \<lparr>today = 1793577600000, minDateNow = 1793577600000, generatedId = utf16 i,
      currentISODate = utf16 ''2026-11-02T00:00:00.000Z''\<rparr>"

section \<open>White space and words\<close>

subsection \<open>White space at the ends\<close>

lemma trimEnd_Nil: "trimEnd [] = []"
  by (simp add: trimEnd_def)

lemma trimEnd_Cons:
  "trimEnd (x # xs) = (if list_all isWhiteSpace (x # xs) then [] else x # trimEnd xs)"
  by (auto simp: trimEnd_def dropWhile_append list_all_iff)

lemma trimEnd_all: "list_all isWhiteSpace xs \<Longrightarrow> trimEnd xs = []"
  by (simp add: trimEnd_def list_all_iff)

lemma trimEnd_append:
  "list_all (\<lambda>x. \<not> isWhiteSpace x) w \<Longrightarrow> trimEnd (w @ u) = w @ trimEnd u"
  by (induction w) (simp_all add: trimEnd_Cons)

lemma trimEnd_last: "trimEnd xs \<noteq> [] \<Longrightarrow> \<not> isWhiteSpace (last (trimEnd xs))"
  using hd_dropWhile [of isWhiteSpace "rev xs"] by (simp add: trimEnd_def last_rev)

lemma trimEnd_id: "xs \<noteq> [] \<Longrightarrow> \<not> isWhiteSpace (last xs) \<Longrightarrow> trimEnd xs = xs"
proof -
  assume a: "xs \<noteq> []" "\<not> isWhiteSpace (last xs)"
  from a(1) obtain y ys where r: "rev xs = y # ys"
    by (cases "rev xs") auto
  from a(1) have "hd (rev xs) = last xs"
    by (simp add: hd_rev)
  with r a(2) have "dropWhile isWhiteSpace (rev xs) = rev xs"
    by simp
  then show ?thesis
    by (simp add: trimEnd_def)
qed

lemma trim_ends:
  assumes "trim s \<noteq> []"
  shows "\<not> isWhiteSpace (hd (trim s)) \<and> \<not> isWhiteSpace (last (trim s))"
proof -
  let ?t = "dropWhile isWhiteSpace s"
  have t: "?t \<noteq> []"
  proof
    assume "?t = []"
    then have "trim s = []"
      by (simp only: trim_def trimStart_def trimEnd_Nil)
    with assms show False
      by simp
  qed
  then obtain x t' where x: "?t = x # t'"
    by (cases ?t) auto
  from hd_dropWhile [OF t] x have nx: "\<not> isWhiteSpace x"
    by simp
  then have "trim s = x # trimEnd t'"
    by (simp add: trim_def trimStart_def x trimEnd_Cons)
  with nx have "\<not> isWhiteSpace (hd (trim s))"
    by simp
  moreover from assms have "\<not> isWhiteSpace (last (trim s))"
    unfolding trim_def by (rule trimEnd_last)
  ultimately show ?thesis
    by simp
qed

lemma trim_id:
  assumes "r \<noteq> []" and "\<not> isWhiteSpace (hd r)" and "\<not> isWhiteSpace (last r)"
  shows "trim r = r"
proof -
  from assms(1,2) have "trimStart r = r"
    by (cases r) (simp_all add: trimStart_def)
  with assms(1,3) show ?thesis
    by (simp add: trim_def trimEnd_id)
qed

subsection \<open>Runs of white space\<close>

lemma replaceSpaces_append:
  "list_all (\<lambda>x. \<not> isWhiteSpace x) w \<Longrightarrow> replaceSpaces (w @ v) = w @ replaceSpaces v"
  by (induction w) simp_all

lemma replaceSpaces_dropWhile:
  "replaceSpaces (dropWhile isWhiteSpace u) =
     (if u \<noteq> [] \<and> isWhiteSpace (hd u) then tl (replaceSpaces u) else replaceSpaces u)"
  by (cases u) simp_all

lemma replaceSpaces_length: "length (replaceSpaces t) \<le> length t"
proof (induction t rule: replaceSpaces.induct)
  case 1
  show ?case by simp
next
  case (2 c cs)
  show ?case
  proof (cases "isWhiteSpace c")
    case True
    with 2 have "length (replaceSpaces (dropWhile isWhiteSpace cs)) \<le> length (dropWhile isWhiteSpace cs)"
      by simp
    also have "\<dots> \<le> length cs"
      by (rule length_dropWhile_le)
    finally show ?thesis
      using True by simp
  next
    case False
    with 2 show ?thesis by simp
  qed
qed

lemma replaceSpaces_set: "set (replaceSpaces t) \<subseteq> insert 0x20 (set t)"
proof (induction t rule: replaceSpaces.induct)
  case 1
  show ?case by simp
next
  case (2 c cs)
  show ?case
  proof (cases "isWhiteSpace c")
    case True
    with 2 have "set (replaceSpaces (dropWhile isWhiteSpace cs)) \<subseteq>
        insert 0x20 (set (dropWhile isWhiteSpace cs))"
      by simp
    moreover have "set (dropWhile isWhiteSpace cs) \<subseteq> set cs"
      by (rule set_dropWhileD [THEN subsetI])
    ultimately show ?thesis
      using True by auto
  next
    case False
    with 2 show ?thesis by auto
  qed
qed

lemma replaceSpaces_Nil: "replaceSpaces t = [] \<longleftrightarrow> t = []"
  by (cases t) simp_all

lemma last_dropWhile: "dropWhile P xs \<noteq> [] \<Longrightarrow> last (dropWhile P xs) = last xs"
  by (metis last_appendR takeWhile_dropWhile_id)

lemma replaceSpaces_last:
  "t \<noteq> [] \<Longrightarrow> \<not> isWhiteSpace (last t) \<Longrightarrow> last (replaceSpaces t) = last t"
proof (induction t rule: replaceSpaces.induct)
  case 1
  then show ?case by simp
next
  case (2 c cs)
  show ?case
  proof (cases "isWhiteSpace c")
    case True
    with "2.prems" have cs: "cs \<noteq> []" "\<not> isWhiteSpace (last cs)"
      by (auto split: if_splits)
    then have "last cs \<in> set cs"
      by simp
    with cs(2) have d: "dropWhile isWhiteSpace cs \<noteq> []"
      by auto
    with cs(2) have "last (replaceSpaces (dropWhile isWhiteSpace cs)) = last cs"
      using "2.IH"(1) [OF True] by (simp add: last_dropWhile)
    moreover from d have "replaceSpaces (dropWhile isWhiteSpace cs) \<noteq> []"
      by (simp only: replaceSpaces_Nil not_False_eq_True)
    ultimately show ?thesis
      using True cs(1) by simp
  next
    case False
    with 2 show ?thesis
      by (cases "cs = []") (simp_all add: replaceSpaces_Nil)
  qed
qed

lemma replaceSpaces_filter:
  "filter (\<lambda>c. \<not> isWhiteSpace c) (replaceSpaces t) = filter (\<lambda>c. \<not> isWhiteSpace c) t"
proof (induction t rule: replaceSpaces.induct)
  case 1
  show ?case by simp
next
  case (2 c cs)
  have sp: "isWhiteSpace 0x20"
    by (simp add: isWhiteSpace_def)
  have "filter (\<lambda>c. \<not> isWhiteSpace c) (dropWhile isWhiteSpace cs) =
        filter (\<lambda>c. \<not> isWhiteSpace c) cs"
    by (induction cs) simp_all
  with 2 sp show ?case
    by simp
qed

lemma trim_filter:
  "filter (\<lambda>c. \<not> isWhiteSpace c) (trim s) = filter (\<lambda>c. \<not> isWhiteSpace c) s"
proof -
  have d: "filter (\<lambda>c. \<not> isWhiteSpace c) (dropWhile isWhiteSpace xs) =
        filter (\<lambda>c. \<not> isWhiteSpace c) xs" for xs
    by (induction xs) simp_all
  have "filter (\<lambda>c. \<not> isWhiteSpace c) (trimEnd xs) = filter (\<lambda>c. \<not> isWhiteSpace c) xs" for xs
    unfolding trimEnd_def rev_filter [symmetric] d by (simp add: rev_filter)
  then show ?thesis
    by (simp add: trim_def trimStart_def d)
qed

subsection \<open>Words\<close>

lemma wordsOf_all: "list_all isWhiteSpace t \<Longrightarrow> wordsOf t = []"
  by (induction t) simp_all

lemma wordsOf_some: "\<not> list_all isWhiteSpace t \<Longrightarrow> wordsOf t \<noteq> []"
  by (induction t) (simp_all split: if_splits)

lemma wordsOf_dropWhile: "wordsOf (dropWhile isWhiteSpace s) = wordsOf s"
  by (induction s) simp_all

lemma joinSpace_Cons:
  "joinSpace (w # ws) = (if ws = [] then w else w @ 0x20 # joinSpace ws)"
  by (cases ws) simp_all

lemma replaceSpaces_trimEnd:
  "replaceSpaces (trimEnd t) =
     (if t \<noteq> [] \<and> isWhiteSpace (hd t) \<and> \<not> list_all isWhiteSpace t
      then 0x20 # joinSpace (wordsOf t) else joinSpace (wordsOf t))"
proof (induction t rule: wordsOf.induct)
  case 1
  show ?case
    by (simp add: trimEnd_Nil)
next
  case (2 c cs)
  show ?case
  proof (cases "isWhiteSpace c")
    case True
    note IH = "2.IH"(1) [OF True]
    show ?thesis
    proof (cases "list_all isWhiteSpace cs")
      case all: True
      with True show ?thesis
        by (simp add: trimEnd_Cons wordsOf_all)
    next
      case some: False
      then obtain x xs where cs: "cs = x # xs"
        by (cases cs) auto
      from some have te: "trimEnd cs = x # trimEnd xs"
        unfolding cs by (simp only: trimEnd_Cons if_False)
      from True some have "replaceSpaces (trimEnd (c # cs)) =
          0x20 # replaceSpaces (dropWhile isWhiteSpace (trimEnd cs))"
        by (simp add: trimEnd_Cons)
      also have "replaceSpaces (dropWhile isWhiteSpace (trimEnd cs)) = joinSpace (wordsOf cs)"
      proof (cases "isWhiteSpace x")
        case True
        with te have "replaceSpaces (dropWhile isWhiteSpace (trimEnd cs)) =
            tl (replaceSpaces (trimEnd cs))"
          by (simp only: replaceSpaces_dropWhile) simp
        also from True some have "replaceSpaces (trimEnd cs) = 0x20 # joinSpace (wordsOf cs)"
          by (simp only: IH) (simp add: cs)
        finally show ?thesis
          by simp
      next
        case False
        with te have "replaceSpaces (dropWhile isWhiteSpace (trimEnd cs)) =
            replaceSpaces (trimEnd cs)"
          by simp
        also from False have "\<dots> = joinSpace (wordsOf cs)"
          by (simp only: IH) (simp add: cs)
        finally show ?thesis .
      qed
      finally show ?thesis
        using True some by simp
    qed
  next
    case False
    let ?w = "takeWhile (\<lambda>x. \<not> isWhiteSpace x) cs"
    let ?u = "dropWhile (\<lambda>x. \<not> isWhiteSpace x) cs"
    note IH = "2.IH"(2) [OF False]
    have w: "list_all (\<lambda>x. \<not> isWhiteSpace x) (c # ?w)"
      using False by (auto simp: list_all_iff dest: set_takeWhileD)
    have "c # cs = (c # ?w) @ ?u"
      by simp
    then have "trimEnd (c # cs) = (c # ?w) @ trimEnd ?u"
      using trimEnd_append [OF w, of ?u] by simp
    then have r: "replaceSpaces (trimEnd (c # cs)) = (c # ?w) @ replaceSpaces (trimEnd ?u)"
      using replaceSpaces_append [OF w, of "trimEnd ?u"] by simp
    have u: "?u = [] \<or> isWhiteSpace (hd ?u)"
      using hd_dropWhile [of "\<lambda>x. \<not> isWhiteSpace x" cs] by auto
    show ?thesis
    proof (cases "list_all isWhiteSpace ?u")
      case True
      with r IH False show ?thesis
        by (simp add: wordsOf_all)
    next
      case some: False
      have "?u \<noteq> []"
      proof
        assume e: "?u = []"
        from some show False
          unfolding e by simp
      qed
      with u some have c: "?u \<noteq> [] \<and> isWhiteSpace (hd ?u) \<and> \<not> list_all isWhiteSpace ?u"
        by blast
      have "replaceSpaces (trimEnd ?u) = 0x20 # joinSpace (wordsOf ?u)"
        unfolding IH by (rule if_P [OF c])
      with r False wordsOf_some [OF some] show ?thesis
        by (simp add: joinSpace_Cons)
    qed
  qed
qed

lemma replaceSpaces_trim: "replaceSpaces (trim s) = joinSpace (wordsOf s)"
proof -
  let ?t = "dropWhile isWhiteSpace s"
  have "?t = [] \<or> \<not> isWhiteSpace (hd ?t)"
    using hd_dropWhile [of isWhiteSpace s] by auto
  then have "replaceSpaces (trimEnd ?t) = joinSpace (wordsOf ?t)"
    unfolding replaceSpaces_trimEnd by auto
  then show ?thesis
    by (simp add: trim_def trimStart_def wordsOf_dropWhile)
qed

lemma removeDangerous_filter: "removeDangerous t = filter (\<lambda>c. \<not> dangerousChar c) t"
  by (induction t) simp_all

section \<open>The utilities\<close>

subsection \<open>Names\<close>

lemma sanitizeName_JString:
  "sanitizeName (JString s) =
     (if s = [] then [] else substring0 50 (removeDangerous (replaceSpaces (trim s))))"
  by (simp add: sanitizeName_def)

lemma sanitizeName_other: "\<forall>t. v \<noteq> JString t \<Longrightarrow> sanitizeName v = []"
  by (cases v) (simp_all add: sanitizeName_def)

lemma isValidName_JString:
  "isValidName (JString s) =
     (if s = [] then False
      else let trimmedName = trim s in
        if length trimmedName < 2 \<or> length trimmedName > 50 then False
        else if length trimmedName = 0 then False
        else if dangerousChars_test trimmedName then False
        else True)"
  by (simp add: isValidName_def)

lemma sanitizeName_words:
  "sanitizeName (JString s) =
     take 50 (filter (\<lambda>c. \<not> dangerousChar c) (joinSpace (wordsOf s)))"
  by (cases "s = []")
     (simp_all add: sanitizeName_JString substring0_def removeDangerous_filter
        replaceSpaces_trim)

lemma isValidName_iff:
  "isValidName (JString s) \<longleftrightarrow>
     2 \<le> length (trim s) \<and> length (trim s) \<le> 50 \<and> \<not> list_ex dangerousChar (trim s)"
proof (cases "s = []")
  case True
  then show ?thesis
    by (simp add: isValidName_JString trim_def trimStart_def trimEnd_Nil)
next
  case False
  then show ?thesis
    by (auto simp: isValidName_JString Let_def dangerousChars_test_def)
qed

lemma isValidName_nonempty:
  "isValidName (JString nm) \<Longrightarrow> nm \<noteq> [] \<and> trim nm \<noteq> []"
  by (cases "nm = []") (auto simp: isValidName_JString Let_def split: if_splits)

text \<open>
  C7. On a string \<open>sanitizeName\<close> returns the input trimmed and with each run of
  white space inside it collapsed to one space, which is its words joined by single
  spaces, then without the characters \<open>< > " ' &\<close>, then cut to its first 50
  characters; it returns the empty string on the empty string and on every value that
  is no string. The result has at most 50 characters and none of the five characters.
\<close>

theorem sanitizeName_steps:
  "sanitizeName (JString s) =
     take 50 (filter (\<lambda>c. \<not> dangerousChar c) (joinSpace (wordsOf s))) \<and>
   sanitizeName (JString []) = [] \<and>
   ((\<forall>t. v \<noteq> JString t) \<longrightarrow> sanitizeName v = []) \<and>
   length (sanitizeName v) \<le> 50 \<and>
   \<not> list_ex dangerousChar (sanitizeName v)"
proof -
  have other: "sanitizeName v = []" if "\<forall>t. v \<noteq> JString t"
    using that by (rule sanitizeName_other)
  have "length (sanitizeName v) \<le> 50 \<and> \<not> list_ex dangerousChar (sanitizeName v)"
  proof (cases "\<exists>t. v = JString t")
    case True
    then obtain t where v: "v = JString t" ..
    have "\<not> list_ex dangerousChar (take 50 (filter (\<lambda>c. \<not> dangerousChar c) xs))" for xs
      by (auto simp: list_ex_iff dest!: in_set_takeD)
    then show ?thesis
      unfolding v sanitizeName_words by simp
  next
    case False
    with other show ?thesis
      by simp
  qed
  with other sanitizeName_words [of s] sanitizeName_JString [of "[]"] show ?thesis
    by simp
qed

text \<open>C7 on a number and on a name with white space and two of the characters.\<close>

theorem sanitizeName_steps_witness:
  "\<not> (\<exists>t. JNumber 42 = JString t) \<and>
   sanitizeName (JNumber 42) = [] \<and>
   sanitizeName (JString (utf16 '' <Jean   Paul>  '')) =
     take 50 (filter (\<lambda>c. \<not> dangerousChar c) (joinSpace (wordsOf (utf16 '' <Jean   Paul>  '')))) \<and>
   wordsOf (utf16 '' <Jean   Paul>  '') = [utf16 ''<Jean'', utf16 ''Paul>''] \<and>
   sanitizeName (JString (utf16 '' <Jean   Paul>  '')) = utf16 ''Jean Paul''"
proof -
  have n: "\<forall>t. JNumber 42 \<noteq> JString t"
    by simp
  note t = sanitizeName_steps [of "utf16 '' <Jean   Paul>  ''" "JNumber 42"]
  have w: "wordsOf (utf16 '' <Jean   Paul>  '') = [utf16 ''<Jean'', utf16 ''Paul>'']"
    by code_simp
  have e: "sanitizeName (JString (utf16 '' <Jean   Paul>  '')) = utf16 ''Jean Paul''"
    by code_simp
  from t n w e show ?thesis
    by blast
qed

text \<open>
  C8. On the input of a space, \<open>A\<close>, two spaces, \<open>B<script>\<close> and a space,
  \<open>sanitizeName\<close> does not return \<open>A B\<close>: it removes the two characters \<open><\<close> and
  \<open>>\<close> and keeps the letters between them.
\<close>

theorem sanitizeName_script_not_A_B:
  "sanitizeName (JString (utf16 '' A  B<script> '')) \<noteq> utf16 ''A B''"
  by code_simp

text \<open>
  C8, amended. On the input of a space, \<open>A\<close>, two spaces, \<open>B<script>\<close> and a space,
  \<open>sanitizeName\<close> returns exactly \<open>A Bscript\<close>.
\<close>

theorem sanitizeName_script:
  "sanitizeName (JString (utf16 '' A  B<script> '')) = utf16 ''A Bscript''"
  by code_simp

text \<open>On a name that \<open>isValidName\<close> accepts, \<open>sanitizeName\<close> changes white space only.\<close>

lemma valid_name_sanitized:
  assumes "isValidName (JString nm)"
  shows "sanitizeName (JString nm) = joinSpace (wordsOf nm)"
    and "filter (\<lambda>c. \<not> isWhiteSpace c) (sanitizeName (JString nm)) =
         filter (\<lambda>c. \<not> isWhiteSpace c) nm"
    and "2 \<le> length (sanitizeName (JString nm))"
    and "length (sanitizeName (JString nm)) \<le> 50"
    and "isValidName (JString (sanitizeName (JString nm)))"
proof -
  let ?t = "trim nm"
  let ?r = "replaceSpaces ?t"
  from assms [unfolded isValidName_iff]
  have t: "2 \<le> length ?t" "length ?t \<le> 50" "\<not> list_ex dangerousChar ?t"
    by simp_all
  from assms have nm: "nm \<noteq> []"
    using isValidName_nonempty by blast
  have sp: "\<not> dangerousChar 0x20"
    by (simp add: dangerousChar_def)
  from t(3) sp replaceSpaces_set [of ?t] have safe: "\<not> list_ex dangerousChar ?r"
    by (auto simp: list_ex_iff)
  then have "removeDangerous ?r = ?r"
    by (simp add: removeDangerous_filter list_ex_iff)
  moreover from t(2) replaceSpaces_length [of ?t] have le: "length ?r \<le> 50"
    by simp
  ultimately have eq: "sanitizeName (JString nm) = ?r"
    using nm by (simp add: sanitizeName_JString substring0_def)
  from t(1) have ne: "?t \<noteq> []"
    by auto
  from trim_ends [OF ne] have ends: "\<not> isWhiteSpace (hd ?t)" "\<not> isWhiteSpace (last ?t)"
    by simp_all
  from t(1) obtain x y ys where xy: "?t = x # y # ys"
    by (cases ?t; cases "tl ?t") auto
  with ends(1) have r: "?r = x # replaceSpaces (y # ys)" and x: "\<not> isWhiteSpace x"
    by simp_all
  have "replaceSpaces (y # ys) \<noteq> []"
    by (simp only: replaceSpaces_Nil) simp
  with r have ge: "2 \<le> length ?r"
    by (cases "replaceSpaces (y # ys)") simp_all
  from replaceSpaces_last [OF ne ends(2)] ends(2) have "\<not> isWhiteSpace (last ?r)"
    by simp
  moreover from r x have "\<not> isWhiteSpace (hd ?r)" "?r \<noteq> []"
    by simp_all
  ultimately have "trim ?r = ?r"
    by (intro trim_id)
  with ge le safe have valid: "isValidName (JString ?r)"
    by (simp only: isValidName_iff) simp
  show "sanitizeName (JString nm) = joinSpace (wordsOf nm)"
    by (simp only: eq replaceSpaces_trim)
  show "filter (\<lambda>c. \<not> isWhiteSpace c) (sanitizeName (JString nm)) =
        filter (\<lambda>c. \<not> isWhiteSpace c) nm"
    by (simp only: eq replaceSpaces_filter trim_filter)
  show "2 \<le> length (sanitizeName (JString nm))"
    by (simp only: eq ge)
  show "length (sanitizeName (JString nm)) \<le> 50"
    by (simp only: eq le)
  show "isValidName (JString (sanitizeName (JString nm)))"
    by (simp only: eq valid)
qed

subsection \<open>Dates\<close>

text \<open>
  \<open>YearFromDay\<close> gives the year of a day number: the day lies from the first day of
  that year up to the day before the first day of the next.
\<close>

lemma div_lower: "(0::int) < n \<Longrightarrow> n * (a div n) \<le> a"
  by (metis mult.commute pos_mod_sign div_mult_mod_eq add_0_right add_le_cancel_left)

lemma div_upper: "(0::int) < n \<Longrightarrow> a < n * (a div n) + n"
  by (metis mult.commute pos_mod_bound div_mult_mod_eq add_less_cancel_left)

lemma DayFromYear_bounds:
  "146097 * (y - 1970) - 506 \<le> 400 * DayFromYear y"
  "400 * DayFromYear y \<le> 146097 * (y - 1970) + 589"
proof -
  define a where "a = (y - 1969) div 4"
  define b where "b = (y - 1901) div 100"
  define c where "c = (y - 1601) div 400"
  have a: "4 * a \<le> y - 1969" "y - 1969 < 4 * a + 4"
    unfolding a_def by (simp_all add: div_lower div_upper)
  have b: "100 * b \<le> y - 1901" "y - 1901 < 100 * b + 100"
    unfolding b_def by (simp_all add: div_lower div_upper)
  have c: "400 * c \<le> y - 1601" "y - 1601 < 400 * c + 400"
    unfolding c_def by (simp_all add: div_lower div_upper)
  have f: "DayFromYear y = 365 * (y - 1970) + a - b + c"
    by (simp add: DayFromYear_def a_def b_def c_def)
  from a b c show "146097 * (y - 1970) - 506 \<le> 400 * DayFromYear y"
    unfolding f by simp
  from a b c show "400 * DayFromYear y \<le> 146097 * (y - 1970) + 589"
    unfolding f by simp
qed

lemma YearFromDay_correct:
  "DayFromYear (YearFromDay d) \<le> d \<and> d < DayFromYear (YearFromDay d + 1)"
proof -
  define y where "y = 1970 + (d * 400) div 146097"
  have y: "146097 * (y - 1970) \<le> 400 * d" "400 * d < 146097 * (y - 1970) + 146097"
    using div_lower [of 146097 "d * 400"] div_upper [of 146097 "d * 400"]
    by (simp_all add: y_def)
  from DayFromYear_bounds(2) [of "y - 1"] y(1) have lo: "DayFromYear (y - 1) \<le> d"
    by simp
  from DayFromYear_bounds(1) [of "y + 2"] y(2) have hi: "d < DayFromYear (y + 2)"
    by simp
  from hi have "d < DayFromYear (y + 1 + 1)"
    by (simp add: add.commute)
  with lo show ?thesis
    unfolding YearFromDay_def y_def [symmetric] Let_def by (simp del: add_2_eq_Suc)
qed

text \<open>
  C9. \<open>formatDateToFrench\<close> reads the string as midnight UTC and takes the day, the
  month and the year in local time, and it writes the year without padding. In UTC
  \<open>1990-09-14\<close> becomes \<open>14/09/1990\<close>; five hours west of UTC it becomes
  \<open>13/09/1990\<close>, the day before; and in UTC \<open>0999-01-01\<close> becomes \<open>01/01/999\<close>,
  with a year of three digits. The empty string gives the empty string.
\<close>

theorem formatDateToFrench_day_before:
  "formatDateToFrench utcHost (utf16 ''1990-09-14'') = utf16 ''14/09/1990'' \<and>
   formatDateToFrench westHost (utf16 ''1990-09-14'') = utf16 ''13/09/1990'' \<and>
   formatDateToFrench utcHost (utf16 ''0999-01-01'') = utf16 ''01/01/999'' \<and>
   formatDateToFrench westHost [] = []"
  by code_simp

text \<open>
  What \<open>isValidBirthDate\<close> decides: the string matches the regular expression,
  \<open>new Date\<close> reads a date from it, by the ISO parser or else by the legacy parser,
  and the date lies between \<open>minDate\<close> and \<open>today\<close>.
\<close>

lemma newDate_regex:
  "dateRegex_test s \<Longrightarrow>
   newDate h s = (case parseISODate s of Some t \<Rightarrow> Some t | None \<Rightarrow> parseLegacyDate h s)"
  by (simp add: newDate_def)

lemma isValidBirthDate_iff:
  "isValidBirthDate h r s \<longleftrightarrow>
     dateRegex_test s \<and>
     (\<exists>date. newDate h s = Some date \<and> date \<le> today r \<and>
        setFullYear h (minDateNow r) (getFullYear h (today r) - 150) \<le> date)"
proof (cases "dateRegex_test s")
  case True
  then have "s \<noteq> []"
    by (auto simp: dateRegex_test_def)
  with True show ?thesis
    by (cases "newDate h s") (auto simp: isValidBirthDate_def Let_def)
next
  case False
  then show ?thesis
    by (simp add: isValidBirthDate_def)
qed

lemma parseISODate_Some:
  "parseISODate s = Some date \<longleftrightarrow>
     1 \<le> digitsValue (take 2 (drop 5 s)) \<and> digitsValue (take 2 (drop 5 s)) \<le> 12 \<and>
     1 \<le> digitsValue (take 2 (drop 8 s)) \<and> digitsValue (take 2 (drop 8 s)) \<le> 31 \<and>
     date = MakeDate (MakeDay (digitsValue (take 4 s)) (digitsValue (take 2 (drop 5 s)) - 1)
                       (digitsValue (take 2 (drop 8 s)))) 0"
  by (auto simp: parseISODate_def Let_def)

text \<open>
  The legacy reading on two strings: \<open>0012-25-00\<close> is 25 December 2000 and
  \<open>0001-13-00\<close> is 13 January 2000, while \<open>2023-13-01\<close> and \<open>2023-02-32\<close> are no
  dates.
\<close>

lemma newDate_legacy:
  "newDate utcHost (utf16 ''0012-25-00'') = newDate utcHost (utf16 ''2000-12-25'')"
  "newDate utcHost (utf16 ''0012-25-00'') = Some 977702400000"
  "newDate utcHost (utf16 ''0001-13-00'') = newDate utcHost (utf16 ''2000-01-13'')"
  "newDate utcHost (utf16 ''2023-13-01'') = None"
  "newDate utcHost (utf16 ''2023-02-32'') = None"
  by code_simp+

text \<open>
  C6. \<open>isValidBirthDate\<close> returns true for \<open>2023-02-30\<close>, which has the form
  \<open>YYYY-MM-DD\<close> and names no day of the calendar: the engine reads it as 2 March
  2023, and \<open>isNaN\<close> does not reject it.
\<close>

theorem isValidBirthDate_february_30:
  "isValidBirthDate utcHost (reading0 ''m1'') (utf16 ''2023-02-30'') \<and>
   \<not> realCalendarDate (utf16 ''2023-02-30'') \<and>
   newDate utcHost (utf16 ''2023-02-30'') = newDate utcHost (utf16 ''2023-03-02'')"
  by code_simp

section \<open>The handlers\<close>

subsection \<open>Searching the array\<close>

lemma findIndex_None: "findIndex p xs = None \<longleftrightarrow> (\<forall>x\<in>set xs. \<not> p x)"
  by (induction xs) auto

lemma findIndex_Some:
  "findIndex p xs = Some i \<Longrightarrow> i < length xs \<and> p (xs ! i) \<and> (\<forall>j<i. \<not> p (xs ! j))"
proof (induction xs arbitrary: i)
  case Nil
  then show ?case by simp
next
  case (Cons x xs)
  show ?case
  proof (cases "p x")
    case True
    with Cons.prems show ?thesis by simp
  next
    case False
    with Cons.prems obtain k where k: "findIndex p xs = Some k" "i = Suc k"
      by auto
    from Cons.IH [OF k(1)] False k(2) show ?thesis
      by (auto simp: less_Suc_eq_0_disj)
  qed
qed

lemma findIndex_exists: "\<exists>x\<in>set xs. p x \<Longrightarrow> \<exists>i. findIndex p xs = Some i"
  using findIndex_None [of p xs] by (cases "findIndex p xs") auto

subsection \<open>The middleware\<close>

lemma isValidBirthDate_nonempty: "isValidBirthDate h r bth \<Longrightarrow> bth \<noteq> []"
  by (auto simp: isValidBirthDate_def)

lemma validateStudentData_valid:
  assumes "isValidName (JString nm)" and "isValidBirthDate h r bth"
  shows "validateStudentData h r nm bth = Inr (sanitizeName (JString nm), bth)"
proof -
  from assms(1) have "nm \<noteq> []" "trim nm \<noteq> []"
    using isValidName_nonempty by blast+
  moreover from assms(2) have "bth \<noteq> []"
    by (rule isValidBirthDate_nonempty)
  ultimately show ?thesis
    using assms by (simp add: validateStudentData_def)
qed

lemma validateStudentData_Inr:
  assumes "validateStudentData h r nm bth = Inr (n, b)"
  shows "isValidName (JString nm) \<and> isValidBirthDate h r bth \<and>
     n = sanitizeName (JString nm) \<and> b = bth"
proof -
  have "isValidName (JString nm)"
    using assms
    by (simp add: validateStudentData_def Let_def
        split: if_splits)
  moreover have "isValidBirthDate h r bth"
    using assms
    by (simp add: validateStudentData_def Let_def
        split: if_splits)
  ultimately show ?thesis
    using assms validateStudentData_valid [of nm h r bth] by simp
qed

subsection \<open>The answers\<close>

lemma redirectWithMessage_fixed [simp]:
  "redirectWithMessage u StudentExists t = Redirect u StudentExists t"
  "redirectWithMessage u OtherStudentExists t = Redirect u OtherStudentExists t"
  "redirectWithMessage u InvalidId t = Redirect u InvalidId t"
  "redirectWithMessage u NotFound t = Redirect u NotFound t"
  by (simp_all add: redirectWithMessage_def)

lemma redirectWithMessage_name:
  "redirectWithMessage u (Added n) t = (if wellFormed n then Redirect u (Added n) t else ServerError)"
  "redirectWithMessage u (Modified n) t =
     (if wellFormed n then Redirect u (Modified n) t else ServerError)"
  "redirectWithMessage u (Deleted n) t =
     (if wellFormed n then Redirect u (Deleted n) t else ServerError)"
  by (simp_all add: redirectWithMessage_def)

subsection \<open>What each handler does to the array\<close>

lemma add_student_cases:
  "snd (add_student h r students nm bth) = students \<or>
   (isValidName (JString nm) \<and> isValidBirthDate h r bth \<and>
    (\<forall>s\<in>set students. toLowerCase h (name s) \<noteq> toLowerCase h (sanitizeName (JString nm))) \<and>
    add_student h r students nm bth =
      (redirectWithMessage (utf16 ''/users'') (Added (sanitizeName (JString nm))) Success,
       students @ [\<lparr>id' = generatedId r, name = sanitizeName (JString nm), birth = bth,
                    createdAt = Some (currentISODate r), updatedAt = None\<rparr>]))"
proof (cases "validateStudentData h r nm bth")
  case (Inl errors)
  then show ?thesis
    by (simp add: add_student_def)
next
  case (Inr p)
  obtain n b where p: "p = (n, b)"
    by (cases p)
  from validateStudentData_Inr [OF Inr [unfolded p]]
  have n: "isValidName (JString nm)" "isValidBirthDate h r bth"
    "n = sanitizeName (JString nm)" "b = bth"
    by blast+
  show ?thesis
  proof (cases "find (\<lambda>s. toLowerCase h (name s) = toLowerCase h n) students")
    case None
    then have "\<forall>s\<in>set students. toLowerCase h (name s) \<noteq> toLowerCase h n"
      by (simp add: find_None_iff)
    moreover from None Inr p have "add_student h r students nm bth =
        (redirectWithMessage (utf16 ''/users'') (Added n) Success,
         students @ [\<lparr>id' = generatedId r, name = n, birth = b,
                      createdAt = Some (currentISODate r), updatedAt = None\<rparr>])"
      by (simp add: add_student_def)
    ultimately show ?thesis
      using n by blast
  next
    case (Some e)
    with Inr p show ?thesis
      by (simp add: add_student_def)
  qed
qed

lemma update_student_cases:
  "snd (update_student h r students studentId nm bth) = students \<or>
   (\<exists>i<length students. id' (students ! i) = studentId \<and>
      isValidName (JString nm) \<and> isValidBirthDate h r bth \<and>
      (\<forall>s\<in>set students. toLowerCase h (name s) = toLowerCase h (sanitizeName (JString nm)) \<longrightarrow>
         id' s = studentId) \<and>
      update_student h r students studentId nm bth =
        (redirectWithMessage (utf16 ''/users'') (Modified (sanitizeName (JString nm))) Success,
         students[i := (students ! i)\<lparr>name := sanitizeName (JString nm), birth := bth,
                                        updatedAt := Some (currentISODate r)\<rparr>]))"
proof (cases "validateStudentData h r nm bth")
  case (Inl errors)
  then show ?thesis
    by (simp add: update_student_def)
next
  case (Inr p)
  obtain n b where p: "p = (n, b)"
    by (cases p)
  from validateStudentData_Inr [OF Inr [unfolded p]]
  have n: "isValidName (JString nm)" "isValidBirthDate h r bth"
    "n = sanitizeName (JString nm)" "b = bth"
    by blast+
  let ?dup = "\<lambda>s. toLowerCase h (name s) = toLowerCase h n \<and> id' s \<noteq> studentId"
  show ?thesis
  proof (cases "isValidStudentId (JString studentId)")
    case False
    with Inr p show ?thesis
      by (simp add: update_student_def)
  next
    case True
    show ?thesis
    proof (cases "findIndex (\<lambda>s. id' s = studentId) students")
      case None
      with True Inr p show ?thesis
        by (simp add: update_student_def)
    next
      case (Some i)
      note i = findIndex_Some [OF Some]
      show ?thesis
      proof (cases "find ?dup students")
        case None
        then have "\<forall>s\<in>set students. toLowerCase h (name s) = toLowerCase h n \<longrightarrow> id' s = studentId"
          by (auto simp: find_None_iff)
        moreover from None Some True Inr p
        have "update_student h r students studentId nm bth =
            (redirectWithMessage (utf16 ''/users'') (Modified n) Success,
             students[i := (students ! i)\<lparr>name := n, birth := b,
                                            updatedAt := Some (currentISODate r)\<rparr>])"
          by (simp add: update_student_def)
        ultimately show ?thesis
          using i n by blast
      next
        case (Some e)
        with \<open>findIndex (\<lambda>s. id' s = studentId) students = Some i\<close> True Inr p show ?thesis
          by (simp add: update_student_def)
      qed
    qed
  qed
qed

lemma delete_student_cases:
  "snd (delete_student students studentId) = students \<or>
   (\<exists>i<length students.
      snd (delete_student students studentId) = take i students @ drop (Suc i) students)"
proof (cases "findIndex (\<lambda>s. id' s = studentId) students")
  case None
  then show ?thesis
    by (simp add: delete_student_def)
next
  case (Some i)
  from findIndex_Some [OF Some] have "i < length students"
    by blast
  with Some show ?thesis
    by (auto simp: delete_student_def splice1_def)
qed

subsection \<open>The three mutations\<close>

text \<open>
  C2. Whatever the array, when the name and the date of birth pass the validation and
  a record has the sanitized name up to case, the handler of \<open>/add-student\<close> answers
  with the redirection to \<open>/\<close> that carries the error "a student with this name
  exists already", and the array is the one it was: same records, same order.
\<close>

theorem add_student_duplicate:
  assumes "isValidName (JString nm)" and "isValidBirthDate h r bth"
    and "\<exists>s\<in>set students. toLowerCase h (name s) = toLowerCase h (sanitizeName (JString nm))"
  shows "add_student h r students nm bth =
           (Redirect (utf16 ''/'') StudentExists Error, students)"
proof -
  from assms(3) obtain s where
    "find (\<lambda>s. toLowerCase h (name s) = toLowerCase h (sanitizeName (JString nm))) students = Some s"
    by (cases "find (\<lambda>s. toLowerCase h (name s) = toLowerCase h (sanitizeName (JString nm))) students")
       (auto simp: find_None_iff)
  with assms(1,2) show ?thesis
    by (simp add: add_student_def validateStudentData_valid)
qed

text \<open>
  C2 on the seeded array: \<open>alice\<close> is refused, \<open>Alice\<close> being there, with a date that
  the ISO parser reads and with one that the legacy parser reads.
\<close>

theorem add_student_duplicate_witness:
  "isValidName (JString (utf16 ''alice'')) \<and>
   isValidBirthDate utcHost (reading0 ''m1'') (utf16 ''2000-01-01'') \<and>
   isValidBirthDate utcHost (reading0 ''m1'') (utf16 ''0012-25-00'') \<and>
   add_student utcHost (reading0 ''m1'') students0 (utf16 ''alice'') (utf16 ''2000-01-01'') =
     (Redirect (utf16 ''/'') StudentExists Error, students0) \<and>
   add_student utcHost (reading0 ''m1'') students0 (utf16 ''alice'') (utf16 ''0012-25-00'') =
     (Redirect (utf16 ''/'') StudentExists Error, students0) \<and>
   length students0 = 5"
proof -
  have n: "isValidName (JString (utf16 ''alice''))"
    by code_simp
  have b: "isValidBirthDate utcHost (reading0 ''m1'') (utf16 ''2000-01-01'')"
    by code_simp
  have b': "isValidBirthDate utcHost (reading0 ''m1'') (utf16 ''0012-25-00'')"
    by code_simp
  have d: "\<exists>s\<in>set students0. toLowerCase utcHost (name s) =
             toLowerCase utcHost (sanitizeName (JString (utf16 ''alice'')))"
    by code_simp
  have l: "length students0 = 5"
    by (simp add: students0_def)
  from add_student_duplicate [OF n b d] add_student_duplicate [OF n b' d] n b b' l
  show ?thesis
    by simp
qed

text \<open>
  C3 as stated fails in two ways. The handler does not return the new record: its
  answer is the redirection with a message made from the name alone, so two runs that
  differ in the generated identifier give the same answer and store different records.
  And the handler looks for the sanitized name, not for the name as passed: no seeded
  record is named \<open>Alice\<close> with a space before it, up to case, and the name of that
  form is refused.
\<close>

theorem add_student_answer_without_record:
  "fst (add_student utcHost (reading0 ''m1'') students0 (utf16 ''Bob'') (utf16 ''2000-01-01'')) =
     Redirect (utf16 ''/users'') (Added (utf16 ''Bob'')) Success \<and>
   fst (add_student utcHost (reading0 ''m2'') students0 (utf16 ''Bob'') (utf16 ''2000-01-01'')) =
     Redirect (utf16 ''/users'') (Added (utf16 ''Bob'')) Success \<and>
   last (snd (add_student utcHost (reading0 ''m1'') students0 (utf16 ''Bob'') (utf16 ''2000-01-01''))) \<noteq>
   last (snd (add_student utcHost (reading0 ''m2'') students0 (utf16 ''Bob'') (utf16 ''2000-01-01''))) \<and>
   isValidName (JString (utf16 '' Alice'')) \<and>
   isValidBirthDate utcHost (reading0 ''m1'') (utf16 ''2000-01-01'') \<and>
   \<not> (\<exists>s\<in>set students0. toLowerCase utcHost (name s) = toLowerCase utcHost (utf16 '' Alice'')) \<and>
   add_student utcHost (reading0 ''m1'') students0 (utf16 '' Alice'') (utf16 ''2000-01-01'') =
     (Redirect (utf16 ''/'') StudentExists Error, students0)"
  by code_simp

text \<open>
  C3, amended. When the name passes \<open>isValidName\<close>, the date passes
  \<open>isValidBirthDate\<close> and no record has the sanitized name up to case, the handler
  appends one record, made of the generated identifier, the sanitized name, the date as
  given and the time stamp \<open>createdAt\<close>, behind the records that were there, which
  it leaves as they were; when the sanitized name has no lone surrogate, its answer is
  the redirection to \<open>/users\<close> with the message of success that names the sanitized
  name.
\<close>

theorem add_student_appends:
  assumes "isValidName (JString nm)" and "isValidBirthDate h r bth"
    and "\<forall>s\<in>set students. toLowerCase h (name s) \<noteq> toLowerCase h (sanitizeName (JString nm))"
  shows "snd (add_student h r students nm bth) =
           students @ [\<lparr>id' = generatedId r, name = sanitizeName (JString nm), birth = bth,
                        createdAt = Some (currentISODate r), updatedAt = None\<rparr>] \<and>
         (wellFormed (sanitizeName (JString nm)) \<longrightarrow>
            fst (add_student h r students nm bth) =
              Redirect (utf16 ''/users'') (Added (sanitizeName (JString nm))) Success)"
proof -
  from assms(3) have
    "find (\<lambda>s. toLowerCase h (name s) = toLowerCase h (sanitizeName (JString nm))) students = None"
    by (simp add: find_None_iff)
  with assms(1,2) show ?thesis
    by (simp add: add_student_def validateStudentData_valid redirectWithMessage_name)
qed

text \<open>C3, amended, on the seeded array and a name with spaces to normalise.\<close>

theorem add_student_appends_witness:
  "isValidName (JString (utf16 ''  Bob   Ross '')) \<and>
   isValidBirthDate utcHost (reading0 ''m1'') (utf16 ''2000-01-01'') \<and>
   \<not> (\<exists>s\<in>set students0. toLowerCase utcHost (name s) =
      toLowerCase utcHost (sanitizeName (JString (utf16 ''  Bob   Ross '')))) \<and>
   sanitizeName (JString (utf16 ''  Bob   Ross '')) = utf16 ''Bob Ross'' \<and>
   wellFormed (sanitizeName (JString (utf16 ''  Bob   Ross ''))) \<and>
   snd (add_student utcHost (reading0 ''m1'') students0 (utf16 ''  Bob   Ross '')
         (utf16 ''2000-01-01'')) =
     students0 @
     [\<lparr>id' = generatedId (reading0 ''m1''),
       name = sanitizeName (JString (utf16 ''  Bob   Ross '')),
       birth = utf16 ''2000-01-01'',
       createdAt = Some (currentISODate (reading0 ''m1'')), updatedAt = None\<rparr>] \<and>
   fst (add_student utcHost (reading0 ''m1'') students0 (utf16 ''  Bob   Ross '')
         (utf16 ''2000-01-01'')) =
     Redirect (utf16 ''/users'') (Added (sanitizeName (JString (utf16 ''  Bob   Ross '')))) Success"
proof -
  have n: "isValidName (JString (utf16 ''  Bob   Ross ''))"
    by code_simp
  have b: "isValidBirthDate utcHost (reading0 ''m1'') (utf16 ''2000-01-01'')"
    by code_simp
  have d: "\<forall>s\<in>set students0. toLowerCase utcHost (name s) \<noteq>
      toLowerCase utcHost (sanitizeName (JString (utf16 ''  Bob   Ross '')))"
    by code_simp
  have e: "sanitizeName (JString (utf16 ''  Bob   Ross '')) = utf16 ''Bob Ross''"
    by code_simp
  have w: "wellFormed (sanitizeName (JString (utf16 ''  Bob   Ross '')))"
    by code_simp
  from d have "\<not> (\<exists>s\<in>set students0. toLowerCase utcHost (name s) =
      toLowerCase utcHost (sanitizeName (JString (utf16 ''  Bob   Ross ''))))"
    by blast
  with n b e w add_student_appends [OF n b d] show ?thesis
    by blast
qed

text \<open>
  With a lone surrogate in the name the record is appended all the same, and the answer
  is the error 500: \<open>encodeURIComponent\<close> throws after the \<open>push\<close>.
\<close>

lemma add_student_lone_surrogate:
  "isValidName (JString [0x61, 0x62, 0xD83D])"
  "fst (add_student utcHost (reading0 ''m1'') students0 [0x61, 0x62, 0xD83D]
         (utf16 ''2000-01-01'')) = ServerError"
  "map name (snd (add_student utcHost (reading0 ''m1'') students0 [0x61, 0x62, 0xD83D]
         (utf16 ''2000-01-01''))) = map name students0 @ [[0x61, 0x62, 0xD83D]]"
  by code_simp+

text \<open>
  C4 as stated fails: the handler of \<open>/update/:id\<close> looks for the sanitized name, not
  for the name as passed. The identifier 2 is valid and a record has it, no record with
  another identifier is named \<open>Sonia\<close> with a space before it, up to case, and the
  update of record 2 to that name is refused, record 1 being named \<open>Sonia\<close>.
\<close>

theorem update_student_refuses_sanitized_name:
  "isValidName (JString (utf16 '' Sonia'')) \<and>
   isValidBirthDate utcHost (reading0 ''m1'') (utf16 ''2000-12-05'') \<and>
   isValidStudentId (JString (utf16 ''2'')) \<and>
   (\<exists>s\<in>set students0. id' s = utf16 ''2'') \<and>
   \<not> (\<exists>s\<in>set students0.
      toLowerCase utcHost (name s) = toLowerCase utcHost (utf16 '' Sonia'') \<and>
      id' s \<noteq> utf16 ''2'') \<and>
   update_student utcHost (reading0 ''m1'') students0 (utf16 ''2'') (utf16 '' Sonia'')
     (utf16 ''2000-12-05'') =
     (Redirect (utf16 ''/edit/2'') OtherStudentExists Error, students0)"
  by code_simp

text \<open>
  C4, amended. With a name and a date of birth that pass the validation, the handler of
  \<open>/update/:id\<close> refuses the request and leaves the array as it was when the
  identifier fails \<open>isValidStudentId\<close>, when no record has it, and when a record with
  another identifier has the sanitized name up to case. Otherwise the first record with
  the identifier gets the sanitized name, the date and the time stamp \<open>updatedAt\<close> in
  its place and keeps its identifier and \<open>createdAt\<close>; the array keeps its length and
  all its other records where they were.
\<close>

theorem update_student_frame:
  assumes "isValidName (JString nm)" and "isValidBirthDate h r bth"
  shows
    "(\<not> isValidStudentId (JString studentId) \<longrightarrow>
        update_student h r students studentId nm bth =
          (Redirect (utf16 ''/users'') InvalidId Error, students)) \<and>
     (isValidStudentId (JString studentId) \<and> (\<forall>s\<in>set students. id' s \<noteq> studentId) \<longrightarrow>
        update_student h r students studentId nm bth =
          (Redirect (utf16 ''/users'') NotFound Error, students)) \<and>
     (isValidStudentId (JString studentId) \<and> (\<exists>s\<in>set students. id' s = studentId) \<and>
      (\<exists>s\<in>set students. toLowerCase h (name s) = toLowerCase h (sanitizeName (JString nm)) \<and>
         id' s \<noteq> studentId) \<longrightarrow>
        update_student h r students studentId nm bth =
          (Redirect (utf16 ''/edit/'' @ studentId) OtherStudentExists Error, students)) \<and>
     (isValidStudentId (JString studentId) \<and> (\<exists>s\<in>set students. id' s = studentId) \<and>
      (\<forall>s\<in>set students. toLowerCase h (name s) = toLowerCase h (sanitizeName (JString nm)) \<longrightarrow>
         id' s = studentId) \<longrightarrow>
        (\<exists>i<length students.
           id' (students ! i) = studentId \<and> (\<forall>j<i. id' (students ! j) \<noteq> studentId) \<and>
           fst (update_student h r students studentId nm bth) =
             redirectWithMessage (utf16 ''/users'') (Modified (sanitizeName (JString nm))) Success \<and>
           (let students' = snd (update_student h r students studentId nm bth) in
              length students' = length students \<and>
              (\<forall>j<length students. j \<noteq> i \<longrightarrow> students' ! j = students ! j) \<and>
              name (students' ! i) = sanitizeName (JString nm) \<and>
              birth (students' ! i) = bth \<and>
              updatedAt (students' ! i) = Some (currentISODate r) \<and>
              id' (students' ! i) = id' (students ! i) \<and>
              createdAt (students' ! i) = createdAt (students ! i))))"
proof -
  let ?n = "sanitizeName (JString nm)"
  let ?dup = "\<lambda>s. toLowerCase h (name s) = toLowerCase h ?n \<and> id' s \<noteq> studentId"
  note v = validateStudentData_valid [OF assms]
  have invalid: "update_student h r students studentId nm bth =
      (Redirect (utf16 ''/users'') InvalidId Error, students)"
    if "\<not> isValidStudentId (JString studentId)"
    using that v by (simp add: update_student_def)
  have missing: "update_student h r students studentId nm bth =
      (Redirect (utf16 ''/users'') NotFound Error, students)"
    if "isValidStudentId (JString studentId)" "\<forall>s\<in>set students. id' s \<noteq> studentId"
  proof -
    from that(2) have "findIndex (\<lambda>s. id' s = studentId) students = None"
      by (simp add: findIndex_None)
    with that(1) v show ?thesis
      by (simp add: update_student_def)
  qed
  have other: "update_student h r students studentId nm bth =
      (Redirect (utf16 ''/edit/'' @ studentId) OtherStudentExists Error, students)"
    if "isValidStudentId (JString studentId)" "\<exists>s\<in>set students. id' s = studentId"
      "\<exists>s\<in>set students. ?dup s"
  proof -
    from that(2) obtain i where "findIndex (\<lambda>s. id' s = studentId) students = Some i"
      using findIndex_exists [of students "\<lambda>s. id' s = studentId"] by blast
    moreover from that(3) obtain e where "find ?dup students = Some e"
      by (cases "find ?dup students") (auto simp: find_None_iff)
    ultimately show ?thesis
      using that(1) v
      by (simp add: update_student_def)
  qed
  have changed: "\<exists>i<length students.
      id' (students ! i) = studentId \<and> (\<forall>j<i. id' (students ! j) \<noteq> studentId) \<and>
      update_student h r students studentId nm bth =
        (redirectWithMessage (utf16 ''/users'') (Modified ?n) Success,
         students[i := (students ! i)\<lparr>name := ?n, birth := bth,
                                        updatedAt := Some (currentISODate r)\<rparr>])"
    if "isValidStudentId (JString studentId)" "\<exists>s\<in>set students. id' s = studentId"
      "\<forall>s\<in>set students. toLowerCase h (name s) = toLowerCase h ?n \<longrightarrow> id' s = studentId"
  proof -
    from that(2) obtain i where i: "findIndex (\<lambda>s. id' s = studentId) students = Some i"
      using findIndex_exists [of students "\<lambda>s. id' s = studentId"] by blast
    from that(3) have "find ?dup students = None"
      by (auto simp: find_None_iff)
    with i that(1) v have "update_student h r students studentId nm bth =
        (redirectWithMessage (utf16 ''/users'') (Modified ?n) Success,
         students[i := (students ! i)\<lparr>name := ?n, birth := bth,
                                        updatedAt := Some (currentISODate r)\<rparr>])"
      by (simp add: update_student_def)
    with findIndex_Some [OF i] show ?thesis
      by blast
  qed
  have success: "\<exists>i<length students.
      id' (students ! i) = studentId \<and> (\<forall>j<i. id' (students ! j) \<noteq> studentId) \<and>
      fst (update_student h r students studentId nm bth) =
        redirectWithMessage (utf16 ''/users'') (Modified ?n) Success \<and>
      (let students' = snd (update_student h r students studentId nm bth) in
         length students' = length students \<and>
         (\<forall>j<length students. j \<noteq> i \<longrightarrow> students' ! j = students ! j) \<and>
         name (students' ! i) = ?n \<and>
         birth (students' ! i) = bth \<and>
         updatedAt (students' ! i) = Some (currentISODate r) \<and>
         id' (students' ! i) = id' (students ! i) \<and>
         createdAt (students' ! i) = createdAt (students ! i))"
    if "isValidStudentId (JString studentId)" "\<exists>s\<in>set students. id' s = studentId"
      "\<forall>s\<in>set students. toLowerCase h (name s) = toLowerCase h ?n \<longrightarrow> id' s = studentId"
  proof -
    from changed [OF that] obtain i where i: "i < length students"
      "id' (students ! i) = studentId" "\<forall>j<i. id' (students ! j) \<noteq> studentId"
      "update_student h r students studentId nm bth =
        (redirectWithMessage (utf16 ''/users'') (Modified ?n) Success,
         students[i := (students ! i)\<lparr>name := ?n, birth := bth,
                                        updatedAt := Some (currentISODate r)\<rparr>])"
      by blast
    show ?thesis
      by (rule exI [of _ i]) (simp add: i Let_def)
  qed
  from invalid missing other success show ?thesis
    by blast
qed

text \<open>C4, amended, on the seeded array: the record 3 becomes \<open>Alicia\<close>.\<close>

theorem update_student_frame_witness:
  "isValidName (JString (utf16 ''Alicia'')) \<and>
   isValidBirthDate utcHost (reading0 ''m1'') (utf16 ''1991-10-15'') \<and>
   isValidStudentId (JString (utf16 ''3'')) \<and>
   (\<exists>s\<in>set students0. id' s = utf16 ''3'') \<and>
   \<not> (\<exists>s\<in>set students0.
      toLowerCase utcHost (name s) = toLowerCase utcHost (sanitizeName (JString (utf16 ''Alicia''))) \<and>
      id' s \<noteq> utf16 ''3'') \<and>
   (\<exists>i<length students0.
      id' (students0 ! i) = utf16 ''3'' \<and> (\<forall>j<i. id' (students0 ! j) \<noteq> utf16 ''3'') \<and>
      fst (update_student utcHost (reading0 ''m1'') students0 (utf16 ''3'') (utf16 ''Alicia'')
            (utf16 ''1991-10-15'')) =
        redirectWithMessage (utf16 ''/users'')
          (Modified (sanitizeName (JString (utf16 ''Alicia'')))) Success \<and>
      (let students' = snd (update_student utcHost (reading0 ''m1'') students0 (utf16 ''3'')
                              (utf16 ''Alicia'') (utf16 ''1991-10-15'')) in
         length students' = length students0 \<and>
         (\<forall>j<length students0. j \<noteq> i \<longrightarrow> students' ! j = students0 ! j) \<and>
         name (students' ! i) = sanitizeName (JString (utf16 ''Alicia'')) \<and>
         birth (students' ! i) = utf16 ''1991-10-15'' \<and>
         updatedAt (students' ! i) = Some (currentISODate (reading0 ''m1'')) \<and>
         id' (students' ! i) = id' (students0 ! i) \<and>
         createdAt (students' ! i) = createdAt (students0 ! i))) \<and>
   map name (snd (update_student utcHost (reading0 ''m1'') students0 (utf16 ''3'')
                    (utf16 ''Alicia'') (utf16 ''1991-10-15''))) =
     [utf16 ''Sonia'', utf16 ''Antoine'', utf16 ''Alicia'', utf16 ''Sophie'', utf16 ''Bernard'']"
proof -
  have n: "isValidName (JString (utf16 ''Alicia''))"
    by code_simp
  have b: "isValidBirthDate utcHost (reading0 ''m1'') (utf16 ''1991-10-15'')"
    by code_simp
  have v: "isValidStudentId (JString (utf16 ''3''))"
    by code_simp
  have e: "\<exists>s\<in>set students0. id' s = utf16 ''3''"
    by code_simp
  have a: "\<forall>s\<in>set students0.
      toLowerCase utcHost (name s) = toLowerCase utcHost (sanitizeName (JString (utf16 ''Alicia''))) \<longrightarrow>
      id' s = utf16 ''3''"
    by code_simp
  have m: "map name (snd (update_student utcHost (reading0 ''m1'') students0 (utf16 ''3'')
                    (utf16 ''Alicia'') (utf16 ''1991-10-15''))) =
     [utf16 ''Sonia'', utf16 ''Antoine'', utf16 ''Alicia'', utf16 ''Sophie'', utf16 ''Bernard'']"
    by code_simp
  note t = update_student_frame [OF n b, where studentId = "utf16 ''3''" and students = students0]
  from t v e a have "\<exists>i<length students0.
      id' (students0 ! i) = utf16 ''3'' \<and> (\<forall>j<i. id' (students0 ! j) \<noteq> utf16 ''3'') \<and>
      fst (update_student utcHost (reading0 ''m1'') students0 (utf16 ''3'') (utf16 ''Alicia'')
            (utf16 ''1991-10-15'')) =
        redirectWithMessage (utf16 ''/users'')
          (Modified (sanitizeName (JString (utf16 ''Alicia'')))) Success \<and>
      (let students' = snd (update_student utcHost (reading0 ''m1'') students0 (utf16 ''3'')
                              (utf16 ''Alicia'') (utf16 ''1991-10-15'')) in
         length students' = length students0 \<and>
         (\<forall>j<length students0. j \<noteq> i \<longrightarrow> students' ! j = students0 ! j) \<and>
         name (students' ! i) = sanitizeName (JString (utf16 ''Alicia'')) \<and>
         birth (students' ! i) = utf16 ''1991-10-15'' \<and>
         updatedAt (students' ! i) = Some (currentISODate (reading0 ''m1'')) \<and>
         id' (students' ! i) = id' (students0 ! i) \<and>
         createdAt (students' ! i) = createdAt (students0 ! i))"
    by blast
  moreover from a have "\<not> (\<exists>s\<in>set students0.
      toLowerCase utcHost (name s) = toLowerCase utcHost (sanitizeName (JString (utf16 ''Alicia''))) \<and>
      id' s \<noteq> utf16 ''3'')"
    by blast
  ultimately show ?thesis
    using n b v e m by blast
qed

text \<open>
  C5. The handler of \<open>/delete/:id\<close> refuses the request and leaves the array as it
  was when the identifier fails \<open>isValidStudentId\<close> and when no record has it.
  Otherwise it removes one record, the first with the identifier: what is left is the
  records before it followed by the records behind it, in their order and unchanged.
  Its answer after the removal is that of \<open>redirectWithMessage\<close> on the name of the
  record removed.
\<close>

theorem delete_student_removes_one:
  "(\<not> isValidStudentId (JString studentId) \<longrightarrow>
      delete_student students studentId =
        (Redirect (utf16 ''/users'') InvalidId Error, students)) \<and>
   (isValidStudentId (JString studentId) \<and> (\<forall>s\<in>set students. id' s \<noteq> studentId) \<longrightarrow>
      delete_student students studentId =
        (Redirect (utf16 ''/users'') NotFound Error, students)) \<and>
   (isValidStudentId (JString studentId) \<and> (\<exists>s\<in>set students. id' s = studentId) \<longrightarrow>
      (\<exists>i<length students.
         id' (students ! i) = studentId \<and> (\<forall>j<i. id' (students ! j) \<noteq> studentId) \<and>
         delete_student students studentId =
           (redirectWithMessage (utf16 ''/users'') (Deleted (name (students ! i))) Success,
            take i students @ drop (Suc i) students) \<and>
         Suc (length (snd (delete_student students studentId))) = length students))"
proof -
  have invalid: "delete_student students studentId =
      (Redirect (utf16 ''/users'') InvalidId Error, students)"
    if "\<not> isValidStudentId (JString studentId)"
    using that by (simp add: delete_student_def)
  have missing: "delete_student students studentId =
      (Redirect (utf16 ''/users'') NotFound Error, students)"
    if "isValidStudentId (JString studentId)" "\<forall>s\<in>set students. id' s \<noteq> studentId"
  proof -
    from that(2) have "findIndex (\<lambda>s. id' s = studentId) students = None"
      by (simp add: findIndex_None)
    with that(1) show ?thesis
      by (simp add: delete_student_def)
  qed
  have removed: "\<exists>i<length students.
      id' (students ! i) = studentId \<and> (\<forall>j<i. id' (students ! j) \<noteq> studentId) \<and>
      delete_student students studentId =
        (redirectWithMessage (utf16 ''/users'') (Deleted (name (students ! i))) Success,
         take i students @ drop (Suc i) students) \<and>
      Suc (length (snd (delete_student students studentId))) = length students"
    if "isValidStudentId (JString studentId)" "\<exists>s\<in>set students. id' s = studentId"
  proof -
    from that(2) obtain i where i: "findIndex (\<lambda>s. id' s = studentId) students = Some i"
      using findIndex_exists [of students "\<lambda>s. id' s = studentId"] by blast
    with that(1) have d: "delete_student students studentId =
        (redirectWithMessage (utf16 ''/users'') (Deleted (name (students ! i))) Success,
         take i students @ drop (Suc i) students)"
      by (simp add: delete_student_def splice1_def)
    from findIndex_Some [OF i] have b: "i < length students" "id' (students ! i) = studentId"
      "\<forall>j<i. id' (students ! j) \<noteq> studentId"
      by blast+
    from b(1) have "Suc (length (take i students @ drop (Suc i) students)) = length students"
      by simp
    with d b show ?thesis
      by (intro exI [of _ i]) simp
  qed
  from invalid missing removed show ?thesis
    by blast
qed

text \<open>C5 on the seeded array: the record 3 is removed.\<close>

theorem delete_student_removes_one_witness:
  "isValidStudentId (JString (utf16 ''3'')) \<and>
   (\<exists>s\<in>set students0. id' s = utf16 ''3'') \<and>
   (\<exists>i<length students0.
      id' (students0 ! i) = utf16 ''3'' \<and> (\<forall>j<i. id' (students0 ! j) \<noteq> utf16 ''3'') \<and>
      delete_student students0 (utf16 ''3'') =
        (redirectWithMessage (utf16 ''/users'') (Deleted (name (students0 ! i))) Success,
         take i students0 @ drop (Suc i) students0) \<and>
      Suc (length (snd (delete_student students0 (utf16 ''3'')))) = length students0) \<and>
   delete_student students0 (utf16 ''3'') =
     (Redirect (utf16 ''/users'') (Deleted (utf16 ''Alice'')) Success,
      [seeded ''1'' ''Sonia'' ''2019-05-14'', seeded ''2'' ''Antoine'' ''2000-12-05'',
       seeded ''4'' ''Sophie'' ''2001-10-02'', seeded ''5'' ''Bernard'' ''1980-08-21''])"
proof -
  have v: "isValidStudentId (JString (utf16 ''3''))"
    by code_simp
  have e: "\<exists>s\<in>set students0. id' s = utf16 ''3''"
    by code_simp
  have d: "delete_student students0 (utf16 ''3'') =
     (Redirect (utf16 ''/users'') (Deleted (utf16 ''Alice'')) Success,
      [seeded ''1'' ''Sonia'' ''2019-05-14'', seeded ''2'' ''Antoine'' ''2000-12-05'',
       seeded ''4'' ''Sophie'' ''2001-10-02'', seeded ''5'' ''Bernard'' ''1980-08-21''])"
    by code_simp
  from delete_student_removes_one [where studentId = "utf16 ''3''" and students = students0] v e d
  show ?thesis
    by blast
qed

text \<open>
  C10. When \<open>isValidName\<close> holds of a string, \<open>sanitizeName\<close> only normalises its
  white space: the result is the words of the string joined by single spaces, its
  characters other than white space are those of the string in their order, its length
  is between 2 and 50, and \<open>isValidName\<close> holds of it. So whatever a request to add
  or to update is called with, every record of the array it leaves is a record of the
  array it found or bears the sanitized name, of which \<open>isValidName\<close> holds; and a
  request that passes the validation and the search for the name leaves a record with
  that name.
\<close>

theorem sanitizeName_keeps_valid:
  "(isValidName (JString nm) \<longrightarrow>
      sanitizeName (JString nm) = joinSpace (wordsOf nm) \<and>
      filter (\<lambda>c. \<not> isWhiteSpace c) (sanitizeName (JString nm)) =
        filter (\<lambda>c. \<not> isWhiteSpace c) nm \<and>
      2 \<le> length (sanitizeName (JString nm)) \<and>
      length (sanitizeName (JString nm)) \<le> 50 \<and>
      isValidName (JString (sanitizeName (JString nm)))) \<and>
   (\<forall>x\<in>set (snd (add_student h r students nm bth)).
      x \<in> set students \<or>
      name x = sanitizeName (JString nm) \<and> isValidName (JString (name x))) \<and>
   (\<forall>x\<in>set (snd (update_student h r students studentId nm bth)).
      x \<in> set students \<or>
      name x = sanitizeName (JString nm) \<and> isValidName (JString (name x))) \<and>
   (isValidName (JString nm) \<and> isValidBirthDate h r bth \<and>
    (\<forall>s\<in>set students. toLowerCase h (name s) \<noteq> toLowerCase h (sanitizeName (JString nm))) \<longrightarrow>
      name (last (snd (add_student h r students nm bth))) = sanitizeName (JString nm) \<and>
      length (snd (add_student h r students nm bth)) = Suc (length students)) \<and>
   (isValidName (JString nm) \<and> isValidBirthDate h r bth \<and>
    isValidStudentId (JString studentId) \<and> (\<exists>s\<in>set students. id' s = studentId) \<and>
    (\<forall>s\<in>set students. toLowerCase h (name s) = toLowerCase h (sanitizeName (JString nm)) \<longrightarrow>
       id' s = studentId) \<longrightarrow>
      (\<exists>x\<in>set (snd (update_student h r students studentId nm bth)).
         id' x = studentId \<and> name x = sanitizeName (JString nm)))"
proof -
  let ?n = "sanitizeName (JString nm)"
  have added: "x \<in> set students \<or> name x = ?n \<and> isValidName (JString (name x))"
    if "x \<in> set (snd (add_student h r students nm bth))" for x
  proof -
    from add_student_cases [of h r students nm bth]
    consider "snd (add_student h r students nm bth) = students"
      | "isValidName (JString nm)"
        "snd (add_student h r students nm bth) =
           students @ [\<lparr>id' = generatedId r, name = ?n, birth = bth,
                        createdAt = Some (currentISODate r), updatedAt = None\<rparr>]"
      by fastforce
    then show ?thesis
    proof cases
      case 1
      with that show ?thesis
        by simp
    next
      case 2
      from valid_name_sanitized(5) [OF 2(1)] that show ?thesis
        unfolding 2(2) by auto
    qed
  qed
  have modified: "x \<in> set students \<or> name x = ?n \<and> isValidName (JString (name x))"
    if "x \<in> set (snd (update_student h r students studentId nm bth))" for x
  proof -
    from update_student_cases [of h r students studentId nm bth]
    consider "snd (update_student h r students studentId nm bth) = students"
      | i where "i < length students" "isValidName (JString nm)"
        "snd (update_student h r students studentId nm bth) =
           students[i := (students ! i)\<lparr>name := ?n, birth := bth,
                                          updatedAt := Some (currentISODate r)\<rparr>]"
      by fastforce
    then show ?thesis
    proof cases
      case 1
      with that show ?thesis
        by simp
    next
      case 2
      from that have "x \<in> insert ((students ! i)\<lparr>name := ?n, birth := bth,
                                     updatedAt := Some (currentISODate r)\<rparr>) (set students)"
        unfolding 2(3) using set_update_subset_insert by fastforce
      with valid_name_sanitized(5) [OF 2(2)] show ?thesis
        by auto
    qed
  qed
  have appended: "name (last (snd (add_student h r students nm bth))) = ?n \<and>
      length (snd (add_student h r students nm bth)) = Suc (length students)"
    if "isValidName (JString nm)" "isValidBirthDate h r bth"
      "\<forall>s\<in>set students. toLowerCase h (name s) \<noteq> toLowerCase h ?n"
  proof -
    from that(3) have "find (\<lambda>s. toLowerCase h (name s) = toLowerCase h ?n) students = None"
      by (simp add: find_None_iff)
    with that(1,2) show ?thesis
      by (simp add: add_student_def validateStudentData_valid)
  qed
  have replaced: "\<exists>x\<in>set (snd (update_student h r students studentId nm bth)).
      id' x = studentId \<and> name x = ?n"
    if "isValidName (JString nm)" "isValidBirthDate h r bth"
      "isValidStudentId (JString studentId)" "\<exists>s\<in>set students. id' s = studentId"
      "\<forall>s\<in>set students. toLowerCase h (name s) = toLowerCase h ?n \<longrightarrow> id' s = studentId"
  proof -
    let ?dup = "\<lambda>s. toLowerCase h (name s) = toLowerCase h ?n \<and> id' s \<noteq> studentId"
    from that(4) obtain i where i: "findIndex (\<lambda>s. id' s = studentId) students = Some i"
      using findIndex_exists [of students "\<lambda>s. id' s = studentId"] by blast
    from that(5) have "find ?dup students = None"
      by (auto simp: find_None_iff)
    with i that(1,2,3) have eq: "snd (update_student h r students studentId nm bth) =
        students[i := (students ! i)\<lparr>name := ?n, birth := bth,
                                       updatedAt := Some (currentISODate r)\<rparr>]"
      by (simp add: update_student_def validateStudentData_valid)
    from findIndex_Some [OF i] have b: "i < length students" "id' (students ! i) = studentId"
      by blast+
    let ?x = "(students ! i)\<lparr>name := ?n, birth := bth, updatedAt := Some (currentISODate r)\<rparr>"
    from b(1) have "?x \<in> set (students[i := ?x])"
      by (simp add: set_update_memI)
    with b(2) show ?thesis
      unfolding eq by (intro bexI [of _ ?x]) simp_all
  qed
  from valid_name_sanitized [of nm] added modified appended replaced show ?thesis
    by blast
qed

text \<open>
  C10 on a name with white space to normalise, added to the seeded array with a date
  that the legacy parser reads.
\<close>

theorem sanitizeName_keeps_valid_witness:
  "isValidName (JString (utf16 ''  Bob   Ross '')) \<and>
   isValidBirthDate utcHost (reading0 ''m1'') (utf16 ''0012-25-00'') \<and>
   \<not> (\<exists>s\<in>set students0. toLowerCase utcHost (name s) =
      toLowerCase utcHost (sanitizeName (JString (utf16 ''  Bob   Ross '')))) \<and>
   sanitizeName (JString (utf16 ''  Bob   Ross '')) = utf16 ''Bob Ross'' \<and>
   sanitizeName (JString (utf16 ''  Bob   Ross '')) =
     joinSpace (wordsOf (utf16 ''  Bob   Ross '')) \<and>
   2 \<le> length (sanitizeName (JString (utf16 ''  Bob   Ross ''))) \<and>
   length (sanitizeName (JString (utf16 ''  Bob   Ross ''))) \<le> 50 \<and>
   isValidName (JString (sanitizeName (JString (utf16 ''  Bob   Ross '')))) \<and>
   name (last (snd (add_student utcHost (reading0 ''m1'') students0
      (utf16 ''  Bob   Ross '') (utf16 ''0012-25-00'')))) =
     sanitizeName (JString (utf16 ''  Bob   Ross '')) \<and>
   length (snd (add_student utcHost (reading0 ''m1'') students0
      (utf16 ''  Bob   Ross '') (utf16 ''0012-25-00''))) = Suc (length students0)"
proof -
  have n: "isValidName (JString (utf16 ''  Bob   Ross ''))"
    by code_simp
  have b: "isValidBirthDate utcHost (reading0 ''m1'') (utf16 ''0012-25-00'')"
    by code_simp
  have d: "\<forall>s\<in>set students0. toLowerCase utcHost (name s) \<noteq>
      toLowerCase utcHost (sanitizeName (JString (utf16 ''  Bob   Ross '')))"
    by code_simp
  have e: "sanitizeName (JString (utf16 ''  Bob   Ross '')) = utf16 ''Bob Ross''"
    by code_simp
  note t = sanitizeName_keeps_valid [of "utf16 ''  Bob   Ross ''" utcHost "reading0 ''m1''"
      students0 "utf16 ''0012-25-00''" "utf16 ''3''"]
  from d have "\<not> (\<exists>s\<in>set students0. toLowerCase utcHost (name s) =
      toLowerCase utcHost (sanitizeName (JString (utf16 ''  Bob   Ross ''))))"
    by blast
  with t n b d e show ?thesis
    by blast
qed

subsection \<open>Names stay unique\<close>

lemma distinct_map_remove_nth:
  assumes "distinct (map f xs)" and "i < length xs"
  shows "distinct (map f (take i xs @ drop (Suc i) xs))"
proof -
  from assms(2) have "xs = take i xs @ xs ! i # drop (Suc i) xs"
    by (rule id_take_nth_drop)
  then have "map f xs = map f (take i xs) @ f (xs ! i) # map f (drop (Suc i) xs)"
    by (metis list.simps(9) map_append)
  with assms(1) show ?thesis
    by simp
qed

lemma distinct_map_update_nth:
  assumes "distinct (map f xs)" and "i < length xs"
    and "\<forall>j<length xs. j \<noteq> i \<longrightarrow> f (xs ! j) \<noteq> f y"
  shows "distinct (map f (xs[i := y]))"
proof -
  have "map f (xs[i := y]) ! j \<noteq> map f (xs[i := y]) ! k"
    if "j < length xs" "k < length xs" "j \<noteq> k" for j k
  proof -
    from assms(1) that have "f (xs ! j) \<noteq> f (xs ! k)"
      by (simp add: distinct_conv_nth)
    with assms(3) that show ?thesis
      by (cases "j = i"; cases "k = i") (auto simp: nth_list_update)
  qed
  then show ?thesis
    by (simp add: distinct_conv_nth)
qed

lemma uniqueNames_update:
  assumes "uniqueNames h students" and "uniqueIds students" and "i < length students"
    and "id' (students ! i) = studentId"
    and "\<forall>s\<in>set students. toLowerCase h (name s) = toLowerCase h n \<longrightarrow> id' s = studentId"
  shows "uniqueNames h (students[i := (students ! i)\<lparr>name := n, birth := b, updatedAt := u\<rparr>])"
proof -
  have "toLowerCase h (name (students ! j)) \<noteq> toLowerCase h n"
    if "j < length students" "j \<noteq> i" for j
  proof
    assume "toLowerCase h (name (students ! j)) = toLowerCase h n"
    with assms(5) that(1) have "id' (students ! j) = studentId"
      by simp
    with assms(4) have "map id' students ! j = map id' students ! i"
      using that(1) assms(3) by simp
    with assms(2,3) that show False
      by (simp add: uniqueIds_def distinct_conv_nth)
  qed
  with assms(1,3) show ?thesis
    unfolding uniqueNames_def
    by (intro distinct_map_update_nth) simp_all
qed

lemma uniqueIds_update:
  assumes "uniqueIds students" and "i < length students"
  shows "uniqueIds (students[i := (students ! i)\<lparr>name := n, birth := b, updatedAt := u\<rparr>])"
proof -
  have "map id' (students[i := (students ! i)\<lparr>name := n, birth := b, updatedAt := u\<rparr>]) =
        map id' students"
    using assms(2) by (simp add: map_update list_update_same_conv)
  with assms(1) show ?thesis
    by (simp add: uniqueIds_def)
qed

lemma handle_keeps_unique:
  assumes "uniqueNames h students" and "uniqueIds students"
    and "freshIds h [q] students"
  shows "uniqueNames h (snd (handle h q students)) \<and> uniqueIds (snd (handle h q students))"
proof (cases q)
  case (AddStudent r nm bth)
  with assms(3) have fresh: "generatedId r \<notin> set (map id' students)"
    by simp
  let ?new = "\<lparr>id' = generatedId r, name = sanitizeName (JString nm), birth = bth,
               createdAt = Some (currentISODate r), updatedAt = None\<rparr>"
  from add_student_cases [of h r students nm bth]
  consider "snd (add_student h r students nm bth) = students"
    | "\<forall>s\<in>set students. toLowerCase h (name s) \<noteq> toLowerCase h (sanitizeName (JString nm))"
      "snd (add_student h r students nm bth) = students @ [?new]"
    by fastforce
  then show ?thesis
  proof cases
    case 1
    with assms AddStudent show ?thesis
      by simp
  next
    case 2
    from assms(1) 2(1) have "uniqueNames h (students @ [?new])"
      unfolding uniqueNames_def by auto
    moreover from assms(2) fresh have "uniqueIds (students @ [?new])"
      unfolding uniqueIds_def by auto
    ultimately show ?thesis
      using AddStudent 2(2) by simp
  qed
next
  case (UpdateStudent r studentId nm bth)
  let ?n = "sanitizeName (JString nm)"
  from update_student_cases [of h r students studentId nm bth]
  consider "snd (update_student h r students studentId nm bth) = students"
    | i where "i < length students" "id' (students ! i) = studentId"
      "\<forall>s\<in>set students. toLowerCase h (name s) = toLowerCase h ?n \<longrightarrow> id' s = studentId"
      "snd (update_student h r students studentId nm bth) =
         students[i := (students ! i)\<lparr>name := ?n, birth := bth,
                                        updatedAt := Some (currentISODate r)\<rparr>]"
    by fastforce
  then show ?thesis
  proof cases
    case 1
    with assms UpdateStudent show ?thesis
      by simp
  next
    case 2
    from uniqueNames_update [OF assms(1,2) 2(1,2,3)] uniqueIds_update [OF assms(2) 2(1)]
    show ?thesis
      using UpdateStudent 2(4) by simp
  qed
next
  case (DeleteStudent studentId)
  from delete_student_cases [of students studentId] show ?thesis
  proof
    assume "snd (delete_student students studentId) = students"
    with assms DeleteStudent show ?thesis
      by simp
  next
    assume "\<exists>i<length students.
      snd (delete_student students studentId) = take i students @ drop (Suc i) students"
    then obtain i where i: "i < length students" and
      eq: "snd (delete_student students studentId) = take i students @ drop (Suc i) students"
      by blast
    from assms(1,2) i show ?thesis
      unfolding DeleteStudent handle.simps eq uniqueNames_def uniqueIds_def
      by (simp only: distinct_map_remove_nth)
  qed
qed

lemma freshIds_Cons:
  "freshIds h (q # qs) students \<longleftrightarrow>
     freshIds h [q] students \<and> freshIds h qs (snd (handle h q students))"
  by (cases q) simp_all

lemma serve_keeps_unique:
  "uniqueNames h students \<Longrightarrow> uniqueIds students \<Longrightarrow> freshIds h qs students \<Longrightarrow>
   uniqueNames h (serve h qs students) \<and> uniqueIds (serve h qs students)"
proof (induction qs arbitrary: students)
  case Nil
  then show ?case by simp
next
  case (Cons q qs)
  from Cons.prems(3) have f: "freshIds h [q] students"
    "freshIds h qs (snd (handle h q students))"
    by (simp_all only: freshIds_Cons [of h q qs students])
  from handle_keeps_unique [OF Cons.prems(1,2) f(1)] Cons.IH [OF _ _ f(2)]
  show ?case
    by simp
qed

lemma uniqueIds_students0: "uniqueIds students0"
  by code_simp

lemma uniqueNames_students0:
  assumes "lowersBasicLatin h"
  shows "uniqueNames h students0"
proof -
  have low: "toLowerCase h s = map asciiLower s" if "list_all (\<lambda>c. c < 0x80) s" for s
    using assms that by (simp add: lowersBasicLatin_def)
  have eq: "map (\<lambda>s. toLowerCase h (name s)) students0 =
        map (\<lambda>s. map asciiLower (name s)) students0"
    by (simp add: students0_def seeded_def utf16_def low)
  have d: "distinct (map (\<lambda>s. map asciiLower (name s)) students0)"
    by code_simp
  show ?thesis
    unfolding uniqueNames_def eq by (rule d)
qed

text \<open>
  C1 as stated fails. \<open>/update/:id\<close> looks for the name among the records with another
  identifier only, and nothing in \<open>/add-student\<close> keeps \<open>generateStudentId\<close> from
  giving a token that a record has: when two records get the same token, updating by
  that token gives the first of them the name of the second. Here \<open>Zoe\<close> and \<open>Yann\<close>
  are added under one token, and the update by it leaves two records named \<open>Yann\<close>.
\<close>

theorem repeated_id_loses_unique_names:
  "\<not> uniqueNames utcHost (serve utcHost
      [AddStudent (reading0 ''mh0abc1x9k2'') (utf16 ''Zoe'') (utf16 ''2000-01-01''),
       AddStudent (reading0 ''mh0abc1x9k2'') (utf16 ''Yann'') (utf16 ''2001-01-01''),
       UpdateStudent (reading0 ''m'') (utf16 ''mh0abc1x9k2'') (utf16 ''Yann'') (utf16 ''2000-01-01'')]
      students0)"
  by code_simp

text \<open>
  C1, amended. From the five seeded records on, after every sequence of requests to
  add, to update and to delete in which every identifier from \<open>generateStudentId\<close> is
  new, that is borne by no record of the array when it is generated, no two records
  have names that are equal up to case. The host's \<open>toLowerCase\<close> is taken to
  lower-case Basic Latin, which keeps the five seeded names apart.
\<close>

theorem names_stay_unique:
  assumes "lowersBasicLatin h" and "freshIds h qs students0"
  shows "uniqueNames h (serve h qs students0)"
  using serve_keeps_unique [OF uniqueNames_students0 [OF assms(1)] uniqueIds_students0 assms(2)]
  by simp

text \<open>
  C1, amended, on five requests, one of them refused for its name and one for the name
  of another record.
\<close>

theorem names_stay_unique_witness:
  "lowersBasicLatin utcHost \<and>
   freshIds utcHost
     [AddStudent (reading0 ''m1'') (utf16 ''Bob'') (utf16 ''2000-01-01''),
      AddStudent (reading0 ''m2'') (utf16 ''BOB'') (utf16 ''2001-01-01''),
      UpdateStudent (reading0 ''m3'') (utf16 ''3'') (utf16 ''Alicia'') (utf16 ''1990-09-14''),
      UpdateStudent (reading0 ''m4'') (utf16 ''2'') (utf16 ''sonia'') (utf16 ''1990-09-14''),
      DeleteStudent (utf16 ''1'')] students0 \<and>
   map name (serve utcHost
     [AddStudent (reading0 ''m1'') (utf16 ''Bob'') (utf16 ''2000-01-01''),
      AddStudent (reading0 ''m2'') (utf16 ''BOB'') (utf16 ''2001-01-01''),
      UpdateStudent (reading0 ''m3'') (utf16 ''3'') (utf16 ''Alicia'') (utf16 ''1990-09-14''),
      UpdateStudent (reading0 ''m4'') (utf16 ''2'') (utf16 ''sonia'') (utf16 ''1990-09-14''),
      DeleteStudent (utf16 ''1'')] students0) =
     [utf16 ''Antoine'', utf16 ''Alicia'', utf16 ''Sophie'', utf16 ''Bernard'', utf16 ''Bob''] \<and>
   uniqueNames utcHost (serve utcHost
     [AddStudent (reading0 ''m1'') (utf16 ''Bob'') (utf16 ''2000-01-01''),
      AddStudent (reading0 ''m2'') (utf16 ''BOB'') (utf16 ''2001-01-01''),
      UpdateStudent (reading0 ''m3'') (utf16 ''3'') (utf16 ''Alicia'') (utf16 ''1990-09-14''),
      UpdateStudent (reading0 ''m4'') (utf16 ''2'') (utf16 ''sonia'') (utf16 ''1990-09-14''),
      DeleteStudent (utf16 ''1'')] students0)"
proof -
  let ?qs = "[AddStudent (reading0 ''m1'') (utf16 ''Bob'') (utf16 ''2000-01-01''),
      AddStudent (reading0 ''m2'') (utf16 ''BOB'') (utf16 ''2001-01-01''),
      UpdateStudent (reading0 ''m3'') (utf16 ''3'') (utf16 ''Alicia'') (utf16 ''1990-09-14''),
      UpdateStudent (reading0 ''m4'') (utf16 ''2'') (utf16 ''sonia'') (utf16 ''1990-09-14''),
      DeleteStudent (utf16 ''1'')]"
  have l: "lowersBasicLatin utcHost"
    by (simp add: lowersBasicLatin_def utcHost_def)
  have f: "freshIds utcHost ?qs students0"
    by code_simp
  have m: "map name (serve utcHost ?qs students0) =
     [utf16 ''Antoine'', utf16 ''Alicia'', utf16 ''Sophie'', utf16 ''Bernard'', utf16 ''Bob'']"
    by code_simp
  from names_stay_unique [OF l f] l f m show ?thesis
    by blast
qed

end
